theory Spec2Isabelle
  imports Main "HOL-Library.Multiset"
begin

unbundle bit_operations_syntax

section \<open>Data model\<close>

text \<open>
  The module \<^verbatim>\<open>fdt/__init__.py\<close> defines the class \<^verbatim>\<open>FDT\<close> and the functions
  \<^verbatim>\<open>parse_dts\<close>, \<^verbatim>\<open>parse_dtb\<close> and \<^verbatim>\<open>diff\<close>.  The classes \<^verbatim>\<open>Header\<close>, \<^verbatim>\<open>Node\<close>
  and the property classes live in \<^verbatim>\<open>fdt/head.py\<close> and \<^verbatim>\<open>fdt/item.py\<close>, the text helpers in
  \<^verbatim>\<open>fdt/misc.py\<close>; where their behaviour is needed it is modelled from the
  specification and marked so.

  Exceptions are values of the type \<open>error\<close>; a function that can raise returns
  \<open>error + 'a\<close>.
\<close>

datatype error =
    NotFound              \<comment> \<open>\<^verbatim>\<open>ValueError("Path ... doesn't exists")\<close> of \<^verbatim>\<open>get_node\<close>\<close>
  | NoneAttribute         \<comment> \<open>\<^verbatim>\<open>AttributeError\<close>: attribute access on \<^verbatim>\<open>None\<close>\<close>
  | Unsupported           \<comment> \<open>\<^verbatim>\<open>NotImplementedError\<close> of \<^verbatim>\<open>parse_dts\<close>\<close>
  | SyntaxErr             \<comment> \<open>\<^verbatim>\<open>Exception()\<close> of a malformed \<^verbatim>\<open>/memreserve/\<close>, \<^verbatim>\<open>ValueError\<close> of \<^verbatim>\<open>int\<close>\<close>
  | VersionMissing        \<comment> \<open>\<^verbatim>\<open>Exception("DTB Version must be specified !")\<close>\<close>
  | Truncated             \<comment> \<open>\<^verbatim>\<open>Exception("Index out of range !")\<close>, \<^verbatim>\<open>struct.error\<close>, \<^verbatim>\<open>IndexError\<close>\<close>
  | UnknownTag nat        \<comment> \<open>\<^verbatim>\<open>Exception("Unknown Tag: ...")\<close>\<close>
  | BadMagic              \<comment> \<open>header decoding\<close>
  | UnsupportedVersion    \<comment> \<open>header decoding, \<^verbatim>\<open>ValueError\<close> of an assignment to \<^verbatim>\<open>Header.version\<close>\<close>
  | PackError             \<comment> \<open>\<^verbatim>\<open>struct.error\<close> of \<^verbatim>\<open>pack\<close>: value out of range\<close>
  | EncodeError           \<comment> \<open>\<^verbatim>\<open>UnicodeEncodeError\<close> of \<^verbatim>\<open>str.encode('ascii')\<close>\<close>
  | IoError               \<comment> \<open>the file named by \<^verbatim>\<open>/incbin/\<close> cannot be read\<close>
  | TypeErr               \<comment> \<open>\<^verbatim>\<open>AttributeError\<close>/\<^verbatim>\<open>TypeError\<close> of a call on a value of the wrong type\<close>
  | NameTaken             \<comment> \<open>an exception of \<^verbatim>\<open>Node.append\<close> for an item whose name the node already has\<close>

type_synonym byte = nat
type_synonym bytes = "byte list"

text \<open>
  Modelled from the spec: the property classes of \<^verbatim>\<open>fdt/item.py\<close> (section 3 of the
  specification): a tagged value with a name; equality compares name and payload.
\<close>

datatype property =
    Property string
  | PropWords string "int list"
  | PropBytes string "int list"
  | PropStrings string "string list"
  | PropIncBin string bytes string

fun prop_name :: "property \<Rightarrow> string" where
  "prop_name (Property n) = n"
| "prop_name (PropWords n _) = n"
| "prop_name (PropBytes n _) = n"
| "prop_name (PropStrings n _) = n"
| "prop_name (PropIncBin n _ _) = n"

text \<open>
  Modelled from the spec: the class \<^verbatim>\<open>Node\<close> of \<^verbatim>\<open>fdt/item.py\<close> (section 3): a name, an
  ordered list of properties and an ordered list of child nodes.  Parents own their
  children; the parent back-link of the source is not stored: a traversal carries the
  names of the ancestors instead (section 9 allows this).
\<close>

datatype node = Node (name: string) (props: "property list") (nodes: "node list")

text \<open>
  One memory reservation: the dictionary \<^verbatim>\<open>{'address': a, 'size': s}\<close> of the source.
  The values are Python integers.
\<close>

record entry =
  address :: int
  size_r :: int

text \<open>
  Modelled from the spec: the fields of \<^verbatim>\<open>Header\<close> (\<^verbatim>\<open>fdt/head.py\<close>, section 3).
  \<open>version\<close> may be absent.  The offsets and sizes are lengths or unsigned 32-bit fields
  of a blob, hence natural numbers.
\<close>

record header =
  total_size :: nat
  off_dt_struct :: nat
  off_dt_strings :: nat
  off_mem_rsvmap :: nat
  version :: "int option"
  last_comp_version :: int
  boot_cpuid_phys :: int
  size_dt_strings :: nat
  size_dt_struct :: nat

text \<open>
  The class \<^verbatim>\<open>FDT\<close>: \<^verbatim>\<open>header\<close>, \<^verbatim>\<open>entries\<close> and \<^verbatim>\<open>root_node\<close>.  \<^verbatim>\<open>root_node\<close> can be
  \<^verbatim>\<open>None\<close> (both parsers start from \<^verbatim>\<open>None\<close>, and \<^verbatim>\<open>to_dts\<close>/\<^verbatim>\<open>to_dtb\<close> test for it).
\<close>

record fdt =
  header :: header
  entries :: "entry list"
  root_node :: "node option"

text \<open>
  Modelled from the spec: \<^verbatim>\<open>Header()\<close>, a header built from scratch: no version, every
  other field zero.
\<close>

definition Header_new :: header where
  "Header_new = \<lparr>total_size = 0, off_dt_struct = 0, off_dt_strings = 0, off_mem_rsvmap = 0,
     version = None, last_comp_version = 0, boot_cpuid_phys = 0,
     size_dt_strings = 0, size_dt_struct = 0\<rparr>"

text \<open>
  Modelled from the spec: an assignment \<^verbatim>\<open>header.version = v\<close> runs the setter of the
  property \<^verbatim>\<open>Header.version\<close> of \<^verbatim>\<open>fdt/head.py\<close>.  The module \<^verbatim>\<open>fdt/__init__.py\<close> only
  calls it (lines 207, 258 and 293), so the functions below take it as the parameter
  \<open>Header_set_version\<close>: it returns the header after the assignment, or raises.
  \<open>Header_set_version_spec\<close> is the instance used in the examples (sections 3, 4.A and 6):
  a version above 17 is refused; otherwise the version is stored, and with it the last
  compatible version, which is the version before it (so that
  \<open>last_comp_version \<le> version\<close>).
\<close>

definition Header_set_version_spec :: "int \<Rightarrow> header \<Rightarrow> error + header" where
  "Header_set_version_spec v h =
     (if v > 17 then Inl UnsupportedVersion
      else Inr (h\<lparr>version := Some v, last_comp_version := v - 1\<rparr>))"

text \<open>\<^verbatim>\<open>FDT.__init__(header)\<close>: no entries, a root node named \<^verbatim>\<open>/\<close>.\<close>

definition FDT_new :: "header \<Rightarrow> fdt" where
  "FDT_new h = \<lparr>header = h, entries = [], root_node = Some (Node ''/'' [] [])\<rparr>"

section \<open>\<^verbatim>\<open>FDT.merge\<close>\<close>

text \<open>
  The inner loop of \<^verbatim>\<open>merge\<close> (lines 210 to 217) for one incoming entry \<open>e\<close>: scan
  \<^verbatim>\<open>self.entries\<close> by index; at the first entry with the address of \<open>e\<close> execute
  \<^verbatim>\<open>self.entries[index]['address'] = in_entry['size']\<close> and stop; when no entry matches,
  append \<open>e\<close>.
\<close>

fun merge_entry :: "entry \<Rightarrow> entry list \<Rightarrow> entry list" where
  "merge_entry e [] = [e]"
| "merge_entry e (x # xs) =
     (if address x = address e then x\<lparr>address := size_r e\<rparr> # xs
      else x # merge_entry e xs)"

text \<open>The outer loop over \<^verbatim>\<open>fdt_obj.entries\<close>, in order.\<close>

definition merge_entries :: "entry list \<Rightarrow> entry list \<Rightarrow> entry list" where
  "merge_entries self_entries other_entries =
     foldl (\<lambda>es e. merge_entry e es) self_entries other_entries"

text \<open>
  The header part of \<^verbatim>\<open>merge\<close> (lines 202 to 207).  Line 203 binds \<^verbatim>\<open>self.header\<close> to the
  header of the other tree; line 207 is an assignment to \<^verbatim>\<open>self.header.version\<close>, which
  runs the setter \<open>Header_set_version\<close> and can raise.
\<close>

definition merge_header ::
  "(int \<Rightarrow> header \<Rightarrow> error + header) \<Rightarrow> header \<Rightarrow> header \<Rightarrow> error + header" where
  "merge_header Header_set_version h h' =
     (case version h of
        None \<Rightarrow> Inr h'
      | Some v \<Rightarrow>
          (case version h' of
             None \<Rightarrow> Inr h
           | Some v' \<Rightarrow> if v' > v then Header_set_version v' h else Inr h))"

text \<open>
  \<^verbatim>\<open>FDT.merge\<close>.  \<^verbatim>\<open>Node.merge\<close> is code of \<^verbatim>\<open>fdt/item.py\<close>; it is the parameter
  \<open>Node_merge\<close>, which receives the root of this tree, the result of
  \<^verbatim>\<open>fdt_obj.get_node('/')\<close> (the other root) and \<^verbatim>\<open>replace\<close>.  The two trees are
  assumed not to share entry dictionaries.  The header is merged first, so an exception
  of the version setter leaves before the entries are touched.
\<close>

definition merge ::
  "(int \<Rightarrow> header \<Rightarrow> error + header) \<Rightarrow> (node \<Rightarrow> node option \<Rightarrow> bool \<Rightarrow> error + node) \<Rightarrow>
   fdt \<Rightarrow> fdt \<Rightarrow> bool \<Rightarrow> error + fdt" where
  "merge Header_set_version Node_merge self fdt_obj replace =
     (case merge_header Header_set_version (header self) (header fdt_obj) of
        Inl e \<Rightarrow> Inl e
      | Inr hd' \<Rightarrow>
          (let es = merge_entries (entries self) (entries fdt_obj)
           in case root_node self of
                None \<Rightarrow> Inl NoneAttribute
              | Some r \<Rightarrow>
                  (case Node_merge r (root_node fdt_obj) replace of
                     Inl e \<Rightarrow> Inl e
                   | Inr r' \<Rightarrow> Inr \<lparr>header = hd', entries = es, root_node = Some r'\<rparr>)))"
section \<open>\<^verbatim>\<open>FDT.to_dtb\<close>\<close>

text \<open>
  \<^verbatim>\<open>struct.pack\<close> of unsigned big-endian fields: \<open>be_bytes k n\<close> are the \<open>k\<close> low bytes
  of \<open>n\<close>, most significant first; \<^verbatim>\<open>pack\<close> raises \<^verbatim>\<open>struct.error\<close> when the value does
  not fit.
\<close>

fun be_bytes :: "nat \<Rightarrow> nat \<Rightarrow> bytes" where
  "be_bytes 0 n = []"
| "be_bytes (Suc k) n = be_bytes k (n div 256) @ [n mod 256]"

definition pack_I :: "int \<Rightarrow> error + bytes" where
  "pack_I x = (if 0 \<le> x \<and> x < 2 ^ 32 then Inr (be_bytes 4 (nat x)) else Inl PackError)"

definition pack_QQ :: "int \<Rightarrow> int \<Rightarrow> error + bytes" where
  "pack_QQ a b =
     (if 0 \<le> a \<and> a < 2 ^ 64 \<and> 0 \<le> b \<and> b < 2 ^ 64
      then Inr (be_bytes 8 (nat a) @ be_bytes 8 (nat b)) else Inl PackError)"

text \<open>Modelled from the spec: the tags of \<^verbatim>\<open>fdt/head.py\<close> (table of section 4.E).\<close>

definition DTB_BEGIN_NODE :: nat where "DTB_BEGIN_NODE = 1"
definition DTB_END_NODE :: nat where "DTB_END_NODE = 2"
definition DTB_PROP :: nat where "DTB_PROP = 3"
definition DTB_NOP :: nat where "DTB_NOP = 4"
definition DTB_END :: nat where "DTB_END = 9"

text \<open>Lines 266 to 269: the loop that packs the reservation entries.\<close>

fun pack_entries :: "entry list \<Rightarrow> error + bytes" where
  "pack_entries [] = Inr []"
| "pack_entries (e # es) =
     (case pack_QQ (address e) (size_r e) of
        Inl err \<Rightarrow> Inl err
      | Inr b \<Rightarrow> (case pack_entries es of Inl err \<Rightarrow> Inl err | Inr bs \<Rightarrow> Inr (b @ bs)))"

text \<open>\<^verbatim>\<open>str.encode('ascii')\<close>; characters are 8-bit in this model.\<close>

definition encode_ascii :: "string \<Rightarrow> error + bytes" where
  "encode_ascii s =
     (if list_all (\<lambda>c. (of_char c :: nat) < 128) s then Inr (map of_char s)
      else Inl EncodeError)"

text \<open>
  Lines 257 to 262: the optional arguments overwrite header fields, in the order
  version, last compatible version, boot CPU.  Line 258 is an assignment to
  \<^verbatim>\<open>self.header.version\<close>: it runs the setter \<open>Header_set_version\<close>, which can raise and
  which may write other fields of the header; the two later assignments are plain
  attribute writes on its result.
\<close>

definition set_header_args ::
  "(int \<Rightarrow> header \<Rightarrow> error + header) \<Rightarrow> int option \<Rightarrow> int option \<Rightarrow> int option \<Rightarrow>
   header \<Rightarrow> error + header" where
  "set_header_args Header_set_version ver lcv bcp h =
     (case (case ver of None \<Rightarrow> Inr h | Some v \<Rightarrow> Header_set_version v h) of
        Inl e \<Rightarrow> Inl e
      | Inr h1 \<Rightarrow>
          (let h2 = (case lcv of None \<Rightarrow> h1 | Some l \<Rightarrow> h1\<lparr>last_comp_version := l\<rparr>)
           in Inr (case bcp of None \<Rightarrow> h2 | Some b \<Rightarrow> h2\<lparr>boot_cpuid_phys := b\<rparr>)))"

text \<open>
  \<^verbatim>\<open>FDT.to_dtb\<close>.  The result is what the call returns or raises, paired with the tree
  after the call (the method assigns to \<^verbatim>\<open>self.header\<close>).  Four pieces of
  \<^verbatim>\<open>fdt/head.py\<close> and \<^verbatim>\<open>fdt/item.py\<close> are parameters:
  \<^item> \<open>Header_set_version\<close>: the setter of \<^verbatim>\<open>Header.version\<close>; when it raises, the header
    is taken to be as before the call;
  \<^item> \<open>Header_size\<close>: the attribute \<^verbatim>\<open>Header.size\<close>, a function of the version
    (section 4.A: the header length depends on the version);
  \<^item> \<open>Node_to_dtb\<close>: \<^verbatim>\<open>Node.to_dtb(strings, pos, version)\<close>, which returns the structure
    bytes, the string block and a position, or raises;
  \<^item> \<open>Header_export\<close>: \<^verbatim>\<open>Header.export()\<close>.
\<close>

definition to_dtb ::
  "(int \<Rightarrow> header \<Rightarrow> error + header) \<Rightarrow> (int \<Rightarrow> nat) \<Rightarrow>
   (node \<Rightarrow> string \<Rightarrow> nat \<Rightarrow> int \<Rightarrow> error + (bytes \<times> string \<times> nat)) \<Rightarrow>
   (header \<Rightarrow> error + bytes) \<Rightarrow>
   int option \<Rightarrow> int option \<Rightarrow> int option \<Rightarrow> fdt \<Rightarrow> (error + bytes option) \<times> fdt" where
  "to_dtb Header_set_version Header_size Node_to_dtb Header_export ver lcv bcp self =
     (case root_node self of
        None \<Rightarrow> (Inr None, self)
      | Some root \<Rightarrow>
          (case set_header_args Header_set_version ver lcv bcp (header self) of
             Inl e \<Rightarrow> (Inl e, self)
           | Inr h \<Rightarrow>
          (let self1 = self\<lparr>header := h\<rparr>
           in case version h of
                None \<Rightarrow> (Inl VersionMissing, self1)
              | Some v \<Rightarrow>
                  (case pack_entries (entries self) of
                     Inl e \<Rightarrow> (Inl e, self1)
                   | Inr packed \<Rightarrow>
                       (let blob_entries = packed @ be_bytes 8 0 @ be_bytes 8 0;
                            blob_data_start = Header_size v + length blob_entries
                        in case Node_to_dtb root [] blob_data_start v of
                             Inl e \<Rightarrow> (Inl e, self1)
                           | Inr (data, blob_strings, data_pos) \<Rightarrow>
                               (let blob_data = data @ be_bytes 4 DTB_END;
                                    h' = h\<lparr>size_dt_strings := length blob_strings,
                                           size_dt_struct := length blob_data,
                                           off_mem_rsvmap := Header_size v,
                                           off_dt_struct := blob_data_start,
                                           off_dt_strings := blob_data_start + length blob_data,
                                           total_size := blob_data_start + length blob_data
                                                         + length blob_strings\<rparr>;
                                    self2 = self\<lparr>header := h'\<rparr>
                                in case Header_export h' of
                                     Inl e \<Rightarrow> (Inl e, self2)
                                   | Inr blob_header \<Rightarrow>
                                       (case encode_ascii blob_strings of
                                          Inl e \<Rightarrow> (Inl e, self2)
                                        | Inr sb \<Rightarrow>
                                            (Inr (Some (blob_header @ blob_entries @ blob_data @ sb)),
                                             self2))))))))"
subsection \<open>The emitter of \<^verbatim>\<open>fdt/item.py\<close> and \<^verbatim>\<open>fdt/head.py\<close>, from the specification\<close>

text \<open>
  Modelled from the spec: the raw encoding of a property value (table of section 3):
  nothing, big-endian 32-bit words, the bytes, each string followed by a NUL byte, the
  included bytes.
\<close>

fun pack_list :: "nat \<Rightarrow> int list \<Rightarrow> error + bytes" where
  "pack_list k [] = Inr []"
| "pack_list k (w # ws) =
     (if 0 \<le> w \<and> w < 2 ^ (8 * k)
      then (case pack_list k ws of Inl e \<Rightarrow> Inl e | Inr bs \<Rightarrow> Inr (be_bytes k (nat w) @ bs))
      else Inl PackError)"

fun encode_strings :: "string list \<Rightarrow> error + bytes" where
  "encode_strings [] = Inr []"
| "encode_strings (s # ss) =
     (case encode_ascii s of
        Inl e \<Rightarrow> Inl e
      | Inr b \<Rightarrow> (case encode_strings ss of Inl e \<Rightarrow> Inl e | Inr bs \<Rightarrow> Inr (b @ [0] @ bs)))"

fun prop_raw :: "property \<Rightarrow> error + bytes" where
  "prop_raw (Property n) = Inr []"
| "prop_raw (PropWords n ws) = pack_list 4 ws"
| "prop_raw (PropBytes n bs) = pack_list 1 bs"
| "prop_raw (PropStrings n ss) = encode_strings ss"
| "prop_raw (PropIncBin n d f) = Inr d"

text \<open>Padding with zero bytes up to a multiple of four.\<close>

definition pad4 :: "bytes \<Rightarrow> bytes" where
  "pad4 b = b @ replicate ((4 - length b mod 4) mod 4) 0"

text \<open>
  Modelled from the spec: the string pool (section 4.B): the offset of the first place
  where the name followed by NUL occurs in the pool; otherwise the name is appended.
\<close>

fun find_sub :: "string \<Rightarrow> string \<Rightarrow> nat option" where
  "find_sub needle [] = (if needle = [] then Some 0 else None)"
| "find_sub needle (c # cs) =
     (if take (length needle) (c # cs) = needle then Some 0
      else map_option Suc (find_sub needle cs))"

definition intern :: "string \<Rightarrow> string \<Rightarrow> string \<times> nat" where
  "intern nm pool =
     (case find_sub (nm @ [CHR 0x00]) pool of
        Some off \<Rightarrow> (pool, off)
      | None \<Rightarrow> (pool @ nm @ [CHR 0x00], length pool))"

text \<open>
  Modelled from the spec: the emission of one property (section 4.F): the tag
  \<open>DTB_PROP\<close>, the length, the name offset from the string pool, the payload, padding.
\<close>

definition Prop_to_dtb :: "property \<Rightarrow> string \<Rightarrow> nat \<Rightarrow> error + (bytes \<times> string \<times> nat)" where
  "Prop_to_dtb p strings pos =
     (case prop_raw p of
        Inl e \<Rightarrow> Inl e
      | Inr raw \<Rightarrow>
          (let (strings', off) = intern (prop_name p) strings;
               blob = be_bytes 4 DTB_PROP @ be_bytes 4 (length raw) @ be_bytes 4 off @ pad4 raw
           in Inr (blob, strings', pos + length blob)))"

text \<open>
  Modelled from the spec: \<^verbatim>\<open>Node.to_dtb\<close> (section 4.F): \<open>DTB_BEGIN_NODE\<close>, the
  NUL-terminated name (empty for the node named \<^verbatim>\<open>/\<close>) padded to four bytes, the
  properties, the children in document order, \<open>DTB_END_NODE\<close>.  The emitter writes
  version 16 semantics whatever the version.
\<close>

fun emit_props :: "property list \<Rightarrow> string \<Rightarrow> nat \<Rightarrow> error + (bytes \<times> string \<times> nat)" where
  "emit_props [] strings pos = Inr ([], strings, pos)"
| "emit_props (p # ps) strings pos =
     (case Prop_to_dtb p strings pos of
        Inl e \<Rightarrow> Inl e
      | Inr (b, strings1, pos1) \<Rightarrow>
          (case emit_props ps strings1 pos1 of
             Inl e \<Rightarrow> Inl e
           | Inr (bs, strings2, pos2) \<Rightarrow> Inr (b @ bs, strings2, pos2)))"

fun Node_to_dtb_spec :: "node \<Rightarrow> string \<Rightarrow> nat \<Rightarrow> int \<Rightarrow> error + (bytes \<times> string \<times> nat)"
  and emit_nodes :: "node list \<Rightarrow> string \<Rightarrow> nat \<Rightarrow> int \<Rightarrow> error + (bytes \<times> string \<times> nat)" where
  "Node_to_dtb_spec (Node nm ps cs) strings pos ver =
     (case encode_ascii (if nm = ''/'' then [] else nm) of
        Inl e \<Rightarrow> Inl e
      | Inr nb \<Rightarrow>
          (let begin = be_bytes 4 DTB_BEGIN_NODE @ pad4 (nb @ [0])
           in case emit_props ps strings (pos + length begin) of
                Inl e \<Rightarrow> Inl e
              | Inr (pb, strings1, pos1) \<Rightarrow>
                  (case emit_nodes cs strings1 pos1 ver of
                     Inl e \<Rightarrow> Inl e
                   | Inr (cb, strings2, pos2) \<Rightarrow>
                       Inr (begin @ pb @ cb @ be_bytes 4 DTB_END_NODE, strings2, pos2 + 4))))"
| "emit_nodes [] strings pos ver = Inr ([], strings, pos)"
| "emit_nodes (c # cs) strings pos ver =
     (case Node_to_dtb_spec c strings pos ver of
        Inl e \<Rightarrow> Inl e
      | Inr (b, strings1, pos1) \<Rightarrow>
          (case emit_nodes cs strings1 pos1 ver of
             Inl e \<Rightarrow> Inl e
           | Inr (bs, strings2, pos2) \<Rightarrow> Inr (b @ bs, strings2, pos2)))"

text \<open>
  Modelled from the spec: the header codec (section 4.A): the fields in order, one
  big-endian 32-bit word each: seven words, then \<open>boot_cpuid_phys\<close> from version 2,
  \<open>size_dt_strings\<close> from version 3 and \<open>size_dt_struct\<close> from version 17 (40 bytes at
  version 17, as in scenario S1).
\<close>

definition MAGIC_NUMBER :: nat where
  "MAGIC_NUMBER = 0xd00dfeed"

definition Header_size_spec :: "int \<Rightarrow> nat" where
  "Header_size_spec v =
     28 + (if v \<ge> 2 then 4 else 0) + (if v \<ge> 3 then 4 else 0) + (if v \<ge> 17 then 4 else 0)"

definition Header_export_spec :: "header \<Rightarrow> error + bytes" where
  "Header_export_spec h =
     (case version h of
        None \<Rightarrow> Inl VersionMissing
      | Some v \<Rightarrow>
          (case pack_list 4 ([int MAGIC_NUMBER, int (total_size h), int (off_dt_struct h),
                   int (off_dt_strings h), int (off_mem_rsvmap h), v, last_comp_version h]
                 @ (if v \<ge> 2 then [boot_cpuid_phys h] else [])
                 @ (if v \<ge> 3 then [int (size_dt_strings h)] else [])
                 @ (if v \<ge> 17 then [int (size_dt_struct h)] else [])) of
             Inl e \<Rightarrow> Inl e
           | Inr b \<Rightarrow> Inr b))"

section \<open>Strings\<close>

text \<open>\<^verbatim>\<open>str.lstrip(chars)\<close> and \<^verbatim>\<open>str.rstrip(chars)\<close> for a set of characters.\<close>

definition lstrip :: "char set \<Rightarrow> string \<Rightarrow> string" where
  "lstrip cs s = dropWhile (\<lambda>c. c \<in> cs) s"

definition rstrip :: "char set \<Rightarrow> string \<Rightarrow> string" where
  "rstrip cs s = rev (dropWhile (\<lambda>c. c \<in> cs) (rev s))"

text \<open>
  \<^verbatim>\<open>str.split(sep)\<close> for a separator of one character: the fields between the
  separators, empty fields included; the empty string gives one empty field.
\<close>

fun split_on :: "char \<Rightarrow> string \<Rightarrow> string list" where
  "split_on sep [] = [[]]"
| "split_on sep (c # cs) =
     (if c = sep then [] # split_on sep cs
      else (case split_on sep cs of [] \<Rightarrow> [[c]] | w # ws \<Rightarrow> (c # w) # ws))"

text \<open>
  \<^verbatim>\<open>str.replace(old, new)\<close> for a non-empty \<open>old\<close>: the occurrences are replaced from
  left to right, without overlap.
\<close>

function replace_str :: "string \<Rightarrow> string \<Rightarrow> string \<Rightarrow> string" where
  "replace_str old new s =
     (if old = [] \<or> s = [] then s
      else if take (length old) s = old then new @ replace_str old new (drop (length old) s)
      else hd s # replace_str old new (tl s))"
  by pat_completeness auto
termination
proof (relation "measure (\<lambda>(old, new, s). length s)")
  show "wf (measure (\<lambda>(old, new, s). length s))" by simp
next
  fix old new s :: string
  assume "\<not> (old = [] \<or> s = [])"
  then show "((old, new, drop (length old) s), old, new, s) \<in> measure (\<lambda>(old, new, s). length s)"
    by (cases old) auto
next
  fix old new s :: string
  assume "\<not> (old = [] \<or> s = [])"
  then show "((old, new, tl s), old, new, s) \<in> measure (\<lambda>(old, new, s). length s)"
    by (cases s) auto
qed

declare replace_str.simps [simp del]

text \<open>\<^verbatim>\<open>sep.join(xs)\<close>.\<close>

fun join :: "string \<Rightarrow> string list \<Rightarrow> string" where
  "join sep [] = []"
| "join sep [x] = x"
| "join sep (x # y # ys) = x @ sep @ join sep (y # ys)"

section \<open>Nodes\<close>

text \<open>
  Modelled from the spec: the operations of \<^verbatim>\<open>Node\<close> (section 4.D).
  \<open>get_subnode\<close> and \<open>get_property\<close> return the first child or property with the name,
  or nothing; \<open>Node_append\<close> adds a child node or a property at the end.  It stands
  for an append of an item whose name the node does not have yet.
\<close>

definition get_subnode :: "string \<Rightarrow> node \<Rightarrow> node option" where
  "get_subnode nm n = find (\<lambda>c. name c = nm) (nodes n)"

definition get_property :: "string \<Rightarrow> node \<Rightarrow> property option" where
  "get_property nm n = find (\<lambda>p. prop_name p = nm) (props n)"

datatype item = INode node | IProp property

fun Node_append :: "item \<Rightarrow> node \<Rightarrow> node" where
  "Node_append (INode c) (Node nm ps cs) = Node nm ps (cs @ [c])"
| "Node_append (IProp p) (Node nm ps cs) = Node nm (ps @ [p]) cs"

text \<open>
  A reference to a node of a tree is its position: the indices of the children to
  follow from the root.  \<open>node_at\<close> reads the node at a position, \<open>modify_at\<close> changes it
  in place, \<open>subnode_index\<close> is the index of the child \<open>get_subnode\<close> returns, and
  \<open>ancestors\<close> are the names of the nodes above a position, from the root.
\<close>

fun node_at :: "nat list \<Rightarrow> node \<Rightarrow> node option" where
  "node_at [] n = Some n"
| "node_at (i # is) n = (if i < length (nodes n) then node_at is (nodes n ! i) else None)"

fun modify_at :: "nat list \<Rightarrow> (node \<Rightarrow> node) \<Rightarrow> node \<Rightarrow> node" where
  "modify_at [] f n = f n"
| "modify_at (i # is) f n =
     (if i < length (nodes n)
      then Node (name n) (props n) ((nodes n)[i := modify_at is f (nodes n ! i)])
      else n)"

fun subnode_index :: "string \<Rightarrow> node list \<Rightarrow> nat option" where
  "subnode_index nm [] = None"
| "subnode_index nm (c # cs) =
     (if name c = nm then Some 0 else map_option Suc (subnode_index nm cs))"

fun ancestors :: "nat list \<Rightarrow> node \<Rightarrow> string list" where
  "ancestors [] n = []"
| "ancestors (i # is) n =
     (if i < length (nodes n) then name n # ancestors is (nodes n ! i) else [])"

text \<open>
  Modelled from the spec: the attribute \<^verbatim>\<open>Node.path\<close> (section 3): the names of the
  ancestors from the root, joined by \<^verbatim>\<open>/\<close>.
\<close>

definition Node_path :: "string list \<Rightarrow> string" where
  "Node_path anc = join ''/'' anc"

section \<open>\<^verbatim>\<open>FDT.get_node\<close> and \<^verbatim>\<open>FDT.add_item\<close>\<close>

text \<open>The names a path is split into (lines 82 to 84); the empty list for the root.\<close>

definition path_names :: "string \<Rightarrow> string list" where
  "path_names path =
     (let p = lstrip {CHR ''/''} path in if p = [] then [] else split_on CHR ''/'' p)"

text \<open>
  The loop of \<^verbatim>\<open>get_node\<close> (lines 85 to 93).  The state is the position of \<^verbatim>\<open>node\<close>
  and the tree; a created node is appended to the children of \<^verbatim>\<open>node\<close>, so its index
  is the former number of children.
\<close>

fun get_node_loop :: "bool \<Rightarrow> string list \<Rightarrow> nat list \<Rightarrow> node \<Rightarrow> error + (nat list \<times> node)" where
  "get_node_loop create [] pos root = Inr (pos, root)"
| "get_node_loop create (nm # names) pos root =
     (case node_at pos root of
        None \<Rightarrow> Inl NoneAttribute
      | Some node \<Rightarrow>
          (case subnode_index nm (nodes node) of
             Some i \<Rightarrow> get_node_loop create names (pos @ [i]) root
           | None \<Rightarrow>
               if create
               then get_node_loop create names (pos @ [length (nodes node)])
                      (modify_at pos (Node_append (INode (Node nm [] []))) root)
               else Inl NotFound))"

text \<open>
  \<^verbatim>\<open>FDT.get_node(path, create)\<close>: the position of the node found (\<open>None\<close> for the
  value \<^verbatim>\<open>None\<close>, returned when the tree has no root and the path is empty) and the tree
  after the call, or the exception raised.
\<close>

definition get_node :: "string \<Rightarrow> bool \<Rightarrow> fdt \<Rightarrow> error + (nat list option \<times> fdt)" where
  "get_node path create self =
     (case root_node self of
        None \<Rightarrow> if path_names path = [] then Inr (None, self) else Inl NoneAttribute
      | Some root \<Rightarrow>
          (case get_node_loop create (path_names path) [] root of
             Inl e \<Rightarrow> Inl e
           | Inr (pos, root') \<Rightarrow> Inr (Some pos, self\<lparr>root_node := Some root'\<rparr>)))"

text \<open>The node value a call of \<^verbatim>\<open>get_node\<close> without creation returns, for reading.\<close>

definition get_node_value :: "string \<Rightarrow> fdt \<Rightarrow> error + node option" where
  "get_node_value path self =
     (case get_node path False self of
        Inl e \<Rightarrow> Inl e
      | Inr (None, _) \<Rightarrow> Inr None
      | Inr (Some pos, _) \<Rightarrow>
          (case root_node self of None \<Rightarrow> Inr None | Some root \<Rightarrow> Inr (node_at pos root)))"

text \<open>
  \<^verbatim>\<open>FDT.add_item(obj, path, create)\<close>: \<^verbatim>\<open>self.get_node(path, create).append(obj)\<close>.
  Here \<^verbatim>\<open>append\<close> can meet a node that already has a child, or a property, with the
  name of the item.  What \<^verbatim>\<open>Node.append\<close> (\<^verbatim>\<open>fdt/item.py\<close>) does then is the parameter
  \<open>append_taken\<close>: it returns the node after the call, or raises.  An item with a new
  name is added at the end.
\<close>

definition name_taken :: "item \<Rightarrow> node \<Rightarrow> bool" where
  "name_taken obj n =
     (case obj of
        INode c \<Rightarrow> get_subnode (name c) n \<noteq> None
      | IProp p \<Rightarrow> get_property (prop_name p) n \<noteq> None)"

definition add_item ::
  "(item \<Rightarrow> node \<Rightarrow> error + node) \<Rightarrow> item \<Rightarrow> string \<Rightarrow> bool \<Rightarrow> fdt \<Rightarrow> error + fdt" where
  "add_item append_taken obj path create self =
     (case get_node path create self of
        Inl e \<Rightarrow> Inl e
      | Inr (None, _) \<Rightarrow> Inl NoneAttribute
      | Inr (Some pos, self') \<Rightarrow>
          (case root_node self' of
             None \<Rightarrow> Inl NoneAttribute
           | Some root \<Rightarrow>
               (case node_at pos root of
                  None \<Rightarrow> Inl NoneAttribute
                | Some n \<Rightarrow>
                    if name_taken obj n then
                      (case append_taken obj n of
                         Inl e \<Rightarrow> Inl e
                       | Inr n' \<Rightarrow>
                           Inr (self'\<lparr>root_node := Some (modify_at pos (\<lambda>_. n') root)\<rparr>))
                    else
                      Inr (self'\<lparr>root_node := Some (modify_at pos (Node_append obj) root)\<rparr>))))"

section \<open>\<^verbatim>\<open>FDT.walk\<close>\<close>

text \<open>
  Line 190: the path of the current node, from \<^verbatim>\<open>node.path\<close> and \<^verbatim>\<open>node.name\<close>;
  lines 191 and 192: the relative form.
\<close>

definition current_path :: "string \<Rightarrow> bool \<Rightarrow> string list \<Rightarrow> node \<Rightarrow> string" where
  "current_path path relative anc n =
     (let p = replace_str ''//'' ''/'' (replace_str ''///'' ''/'' (Node_path anc @ ''/'' @ name n))
      in if path \<noteq> [] \<and> relative then lstrip {CHR ''/''} (replace_str path [] p) else p)"

text \<open>
  The loop of \<^verbatim>\<open>walk\<close> (lines 188 to 195).  The list \<^verbatim>\<open>nodes\<close> is a stack of nodes still
  to visit, each with the names of its ancestors; the children of the current node are
  pushed in order and the last element is popped.  The generator is modelled by the list
  of the triples it yields.
\<close>

type_synonym triple = "string \<times> node list \<times> property list"

function walk_loop ::
  "string \<Rightarrow> bool \<Rightarrow> (string list \<times> node) list \<Rightarrow> string list \<times> node \<Rightarrow> triple list" where
  "walk_loop path relative stack (anc, n) =
     (let stack' = stack @ map (\<lambda>c. (anc @ [name n], c)) (nodes n)
      in (current_path path relative anc n, nodes n, props n)
         # (if stack' = [] then [] else walk_loop path relative (butlast stack') (last stack')))"
  by pat_completeness auto
termination
proof (relation "measure (\<lambda>(path, relative, stack, (anc, n)). sum_list (map (size \<circ> snd) stack) + size n)")
  show "wf (measure (\<lambda>(path, relative, stack, (anc, n)). sum_list (map (size \<circ> snd) stack) + size n))"
    by simp
next
  fix path :: string and relative :: bool and stack :: "(string list \<times> node) list"
    and anc :: "string list" and n :: node and stack' :: "(string list \<times> node) list"
  assume s: "stack' = stack @ map (\<lambda>c. (anc @ [name n], c)) (nodes n)" and ne: "stack' \<noteq> []"
  obtain a m where lm: "last stack' = (a, m)" by (cases "last stack'")
  have "sum_list (map (size \<circ> snd) stack') = sum_list (map (size \<circ> snd) (butlast stack' @ [last stack']))"
    using ne by simp
  then have eq: "sum_list (map (size \<circ> snd) stack') = sum_list (map (size \<circ> snd) (butlast stack')) + size m"
    using lm by simp
  have "sum_list (map (size \<circ> snd) stack') = sum_list (map (size \<circ> snd) stack) + sum_list (map size (nodes n))"
    using s by (simp add: comp_def)
  moreover have "sum_list (map size (nodes n)) < size n"
    by (cases n) (simp add: size_list_conv_sum_list)
  ultimately have "sum_list (map (size \<circ> snd) (butlast stack')) + size m
      < sum_list (map (size \<circ> snd) stack) + size n"
    using eq by linarith
  then show "((path, relative, butlast stack', last stack'), path, relative, stack, anc, n)
      \<in> measure (\<lambda>(path, relative, stack, (anc, n)). sum_list (map (size \<circ> snd) stack) + size n)"
    using lm by simp
qed

declare walk_loop.simps [simp del]

text \<open>
  \<^verbatim>\<open>FDT.walk(path, relative)\<close>: the triples yielded, or the exception raised (by
  \<^verbatim>\<open>get_node\<close>, or by \<^verbatim>\<open>node.nodes\<close> when \<^verbatim>\<open>get_node\<close> returns \<^verbatim>\<open>None\<close>).
\<close>

definition walk :: "string \<Rightarrow> bool \<Rightarrow> fdt \<Rightarrow> error + triple list" where
  "walk path relative self =
     (case get_node path False self of
        Inl e \<Rightarrow> Inl e
      | Inr (None, _) \<Rightarrow> Inl NoneAttribute
      | Inr (Some pos, _) \<Rightarrow>
          (case root_node self of
             None \<Rightarrow> Inl NoneAttribute
           | Some root \<Rightarrow>
               (case node_at pos root of
                  None \<Rightarrow> Inl NoneAttribute
                | Some n \<Rightarrow> Inr (walk_loop path relative [] (ancestors pos root, n)))))"

section \<open>Notions used to state the properties of the tree operations\<close>

text \<open>
  A list of names leads to a node when the children can be followed name by name.
\<close>

fun exists_path :: "string list \<Rightarrow> node \<Rightarrow> bool" where
  "exists_path [] n = True"
| "exists_path (nm # names) n = list_ex (\<lambda>c. name c = nm \<and> exists_path names c) (nodes n)"

text \<open>
  The descent of \<^verbatim>\<open>get_node\<close> written by recursion on the tree: the position found,
  relative to the node, and the node after the call.
\<close>

fun descend :: "bool \<Rightarrow> string list \<Rightarrow> node \<Rightarrow> error + (nat list \<times> node)" where
  "descend create [] n = Inr ([], n)"
| "descend create (nm # names) n =
     (case subnode_index nm (nodes n) of
        Some i \<Rightarrow>
          (case descend create names (nodes n ! i) of
             Inl e \<Rightarrow> Inl e
           | Inr (p, c') \<Rightarrow> Inr (i # p, Node (name n) (props n) ((nodes n)[i := c'])))
      | None \<Rightarrow>
          if create
          then (case descend create names (Node nm [] []) of
                  Inl e \<Rightarrow> Inl e
                | Inr (p, c') \<Rightarrow>
                    Inr (length (nodes n) # p, Node (name n) (props n) (nodes n @ [c'])))
          else Inl NotFound)"

text \<open>
  All nodes of a tree, in document order, and the depth-first pre-order listing that
  takes the children of each node from the last to the first; the latter carries the
  names of the ancestors of each node.
\<close>

fun subtrees :: "node \<Rightarrow> node list" where
  "subtrees (Node nm ps cs) = Node nm ps cs # concat (map subtrees cs)"

fun preorder_rl :: "string list \<Rightarrow> node \<Rightarrow> (string list \<times> node) list" where
  "preorder_rl anc (Node nm ps cs) =
     (anc, Node nm ps cs) # concat (map (preorder_rl (anc @ [nm])) (rev cs))"

text \<open>The triple \<^verbatim>\<open>walk\<close> yields for a node with the names of its ancestors.\<close>

definition triple_of :: "string \<Rightarrow> bool \<Rightarrow> string list \<times> node \<Rightarrow> triple" where
  "triple_of path relative an =
     (current_path path relative (fst an) (snd an), nodes (snd an), props (snd an))"

section \<open>\<^verbatim>\<open>diff\<close>\<close>

text \<open>A \<^verbatim>\<open>for\<close> loop whose body can raise: the first exception ends the loop.\<close>

fun foldM :: "('a \<Rightarrow> 's \<Rightarrow> error + 's) \<Rightarrow> 'a list \<Rightarrow> 's \<Rightarrow> error + 's" where
  "foldM f [] s = Inr s"
| "foldM f (x # xs) s = (case f x s of Inl e \<Rightarrow> Inl e | Inr s' \<Rightarrow> foldM f xs s')"

text \<open>The comparison of two reservation entries used throughout \<^verbatim>\<open>diff\<close>.\<close>

definition entry_eq :: "entry \<Rightarrow> entry \<Rightarrow> bool" where
  "entry_eq a b = (address a = address b \<and> size_r a = size_r b)"

text \<open>Lines 459 to 464: the entries of the first tree that also occur in the second.\<close>

definition same_entries :: "entry list \<Rightarrow> entry list \<Rightarrow> entry list" where
  "same_entries es1 es2 =
     (if es1 \<noteq> [] \<and> es2 \<noteq> [] then filter (\<lambda>a. list_ex (entry_eq a) es2) es1 else [])"

text \<open>Lines 466 to 482: the entries of a tree that are not among the common ones.\<close>

definition only_entries :: "entry list \<Rightarrow> entry list \<Rightarrow> entry list" where
  "only_entries es same = filter (\<lambda>a. \<not> list_ex (entry_eq a) same) es"

text \<open>
  \<^verbatim>\<open>try: rnode = fdt.get_node(path) except: rnode = None\<close> (lines 485 to 488 and 503 to
  506).
\<close>

definition try_get_node :: "string \<Rightarrow> fdt \<Rightarrow> node option" where
  "try_get_node path t = (case get_node_value path t of Inl e \<Rightarrow> None | Inr r \<Rightarrow> r)"

text \<open>
  The body of the first loop (lines 485 to 500) for one triple of \<^verbatim>\<open>fdt1.walk()\<close>; the
  state is the pair of \<^verbatim>\<open>fdt_a\<close> and \<^verbatim>\<open>fdt_same\<close>.
\<close>

definition diff_nodes1 ::
  "(item \<Rightarrow> node \<Rightarrow> error + node) \<Rightarrow> node option \<Rightarrow> string \<Rightarrow> node \<Rightarrow> fdt \<times> fdt \<Rightarrow> error + (fdt \<times> fdt)" where
  "diff_nodes1 append_taken rnode path node_b st =
     (case st of (fdt_a, fdt_same) \<Rightarrow>
        if (case rnode of None \<Rightarrow> True | Some r \<Rightarrow> get_subnode (name node_b) r = None)
        then (case add_item append_taken (INode (Node (name node_b) [] [])) path True fdt_a of
                Inl e \<Rightarrow> Inl e | Inr fdt_a' \<Rightarrow> Inr (fdt_a', fdt_same))
        else (case add_item append_taken (INode (Node (name node_b) [] [])) path True fdt_same of
                Inl e \<Rightarrow> Inl e | Inr fdt_same' \<Rightarrow> Inr (fdt_a, fdt_same')))"

definition diff_props1 ::
  "(item \<Rightarrow> node \<Rightarrow> error + node) \<Rightarrow> node option \<Rightarrow> string \<Rightarrow> property \<Rightarrow> fdt \<times> fdt \<Rightarrow> error + (fdt \<times> fdt)" where
  "diff_props1 append_taken rnode path prop_a st =
     (case st of (fdt_a, fdt_same) \<Rightarrow>
        if (case rnode of None \<Rightarrow> False | Some r \<Rightarrow> Some prop_a = get_property (prop_name prop_a) r)
        then (case add_item append_taken (IProp prop_a) path True fdt_same of
                Inl e \<Rightarrow> Inl e | Inr fdt_same' \<Rightarrow> Inr (fdt_a, fdt_same'))
        else (case add_item append_taken (IProp prop_a) path True fdt_a of
                Inl e \<Rightarrow> Inl e | Inr fdt_a' \<Rightarrow> Inr (fdt_a', fdt_same)))"

definition diff_step1 ::
  "(item \<Rightarrow> node \<Rightarrow> error + node) \<Rightarrow> fdt \<Rightarrow> triple \<Rightarrow> fdt \<times> fdt \<Rightarrow> error + (fdt \<times> fdt)" where
  "diff_step1 append_taken fdt2 tr st =
     (case tr of (path, nds, prps) \<Rightarrow>
        (let rnode = try_get_node path fdt2
         in case foldM (diff_nodes1 append_taken rnode path) nds st of
              Inl e \<Rightarrow> Inl e
            | Inr st' \<Rightarrow> foldM (diff_props1 append_taken rnode path) prps st'))"

text \<open>
  The body of the second loop (lines 503 to 514) for one triple of \<^verbatim>\<open>fdt2.walk()\<close>; the
  state is \<^verbatim>\<open>fdt_b\<close>, and \<^verbatim>\<open>fdt_same\<close> is only read.
\<close>

definition diff_nodes2 ::
  "(item \<Rightarrow> node \<Rightarrow> error + node) \<Rightarrow> node option \<Rightarrow> string \<Rightarrow> node \<Rightarrow> fdt \<Rightarrow> error + fdt" where
  "diff_nodes2 append_taken rnode path node_b fdt_b =
     (if (case rnode of None \<Rightarrow> True | Some r \<Rightarrow> get_subnode (name node_b) r = None)
      then add_item append_taken (INode (Node (name node_b) [] [])) path True fdt_b
      else Inr fdt_b)"

definition diff_props2 ::
  "(item \<Rightarrow> node \<Rightarrow> error + node) \<Rightarrow> node option \<Rightarrow> string \<Rightarrow> property \<Rightarrow> fdt \<Rightarrow> error + fdt" where
  "diff_props2 append_taken rnode path prop_b fdt_b =
     (if (case rnode of None \<Rightarrow> True | Some r \<Rightarrow> Some prop_b \<noteq> get_property (prop_name prop_b) r)
      then add_item append_taken (IProp prop_b) path True fdt_b
      else Inr fdt_b)"

definition diff_step2 ::
  "(item \<Rightarrow> node \<Rightarrow> error + node) \<Rightarrow> fdt \<Rightarrow> triple \<Rightarrow> fdt \<Rightarrow> error + fdt" where
  "diff_step2 append_taken fdt_same tr fdt_b =
     (case tr of (path, nds, prps) \<Rightarrow>
        (let rnode = try_get_node path fdt_same
         in case foldM (diff_nodes2 append_taken rnode path) nds fdt_b of
              Inl e \<Rightarrow> Inl e
            | Inr fdt_b' \<Rightarrow> foldM (diff_props2 append_taken rnode path) prps fdt_b'))"

text \<open>
  \<^verbatim>\<open>diff(fdt1, fdt2)\<close>: the triple \<^verbatim>\<open>(fdt_same, fdt_a, fdt_b)\<close>, or the exception raised.
  The walked trees are not changed by the loops, so each generator is the list of its
  triples.  \<open>append_taken\<close> is the parameter of \<open>add_item\<close>.
\<close>

definition diff ::
  "(item \<Rightarrow> node \<Rightarrow> error + node) \<Rightarrow> fdt \<Rightarrow> fdt \<Rightarrow> error + (fdt \<times> fdt \<times> fdt)" where
  "diff append_taken fdt1 fdt2 =
     (let same_header =
            (case (version (header fdt1), version (header fdt2)) of
               (Some v1, Some v2) \<Rightarrow> if v1 > v2 then header fdt1 else header fdt2
             | _ \<Rightarrow> header fdt1);
          same_es = same_entries (entries fdt1) (entries fdt2);
          fdt_a = (FDT_new (header fdt1))\<lparr>entries := only_entries (entries fdt1) same_es\<rparr>;
          fdt_b = (FDT_new (header fdt2))\<lparr>entries := only_entries (entries fdt2) same_es\<rparr>;
          fdt_same = (FDT_new same_header)\<lparr>entries := same_es\<rparr>
      in case walk [] False fdt1 of
           Inl e \<Rightarrow> Inl e
         | Inr w1 \<Rightarrow>
             (case foldM (diff_step1 append_taken fdt2) w1 (fdt_a, fdt_same) of
                Inl e \<Rightarrow> Inl e
              | Inr (fdt_a', fdt_same') \<Rightarrow>
                  (case walk [] False fdt2 of
                     Inl e \<Rightarrow> Inl e
                   | Inr w2 \<Rightarrow>
                       (case foldM (diff_step2 append_taken fdt_same') w2 fdt_b of
                          Inl e \<Rightarrow> Inl e
                        | Inr fdt_b' \<Rightarrow> Inr (fdt_same', fdt_a', fdt_b')))))"

section \<open>Notions used to state the property of \<^verbatim>\<open>diff\<close>\<close>

text \<open>
  A name that can be a component of a path: not empty and without \<^verbatim>\<open>/\<close>.  A node is
  well formed when, at every level, the property names are distinct and the child names
  are distinct component names.  \<open>stub\<close> is the node \<^verbatim>\<open>Node(name)\<close> that \<^verbatim>\<open>diff\<close> puts
  in place of a child.
\<close>

definition good_name :: "string \<Rightarrow> bool" where
  "good_name s = (s \<noteq> [] \<and> CHR ''/'' \<notin> set s)"

fun wf_node :: "node \<Rightarrow> bool" where
  "wf_node (Node nm ps cs) =
     (distinct (map prop_name ps) \<and> distinct (map name cs)
      \<and> list_all (\<lambda>c. good_name (name c) \<and> wf_node c) cs)"

definition stub :: "node \<Rightarrow> node" where
  "stub c = Node (name c) [] []"

text \<open>
  Auxiliary notions: strings without two adjacent slashes; the ancestor names
  \<^verbatim>\<open>walk\<close> carries for a node below a root named \<^verbatim>\<open>/\<close>, and the names such a node is
  reached by.
\<close>

fun no_slash_pair :: "string \<Rightarrow> bool" where
  "no_slash_pair [] = True"
| "no_slash_pair [a] = True"
| "no_slash_pair (a # b # cs) = (\<not> (a = CHR ''/'' \<and> b = CHR ''/'') \<and> no_slash_pair (b # cs))"

definition good_anc :: "string list \<Rightarrow> node \<Rightarrow> bool" where
  "good_anc anc m =
     (if anc = [] then name m = ''/''
      else hd anc = ''/'' \<and> (\<forall>x \<in> set (tl anc @ [name m]). good_name x))"

definition name_path :: "string list \<Rightarrow> node \<Rightarrow> string list" where
  "name_path anc m = (if anc = [] then [] else tl anc @ [name m])"

section \<open>Building a tree while parsing\<close>

text \<open>
  Both parsers keep \<^verbatim>\<open>fdt_obj.root_node\<close> and a current node, move to a new node when
  one is opened and to \<^verbatim>\<open>current_node.parent\<close> when one is closed.  The current node is
  \<^verbatim>\<open>None\<close>, a node of the tree under \<^verbatim>\<open>root_node\<close> (given by its position), or a node of
  a tree that is not attached to \<^verbatim>\<open>root_node\<close>: a node opened while the current node is
  \<^verbatim>\<open>None\<close> and the root is already set has no parent.
\<close>

datatype cursor = NoNode | InRoot "nat list" | Detached node "nat list"

record builder =
  b_root :: "node option"
  b_cur :: cursor

definition builder_init :: builder where
  "builder_init = \<lparr>b_root = None, b_cur = NoNode\<rparr>"

text \<open>The number of children of the node at a position.\<close>

definition child_count :: "nat list \<Rightarrow> node \<Rightarrow> nat" where
  "child_count p r = (case node_at p r of None \<Rightarrow> 0 | Some n \<Rightarrow> length (nodes n))"

text \<open>
  Lines 414 to 419 (and 316 to 321): create a node, install it as the root when there is
  none, append it to the current node when there is one, and make it the current node.
\<close>

definition open_node :: "string \<Rightarrow> builder \<Rightarrow> builder" where
  "open_node nm b =
     (let new_node = Node nm [] []
      in case b_root b of
           None \<Rightarrow> \<lparr>b_root = Some new_node, b_cur = InRoot []\<rparr>
         | Some r \<Rightarrow>
             (case b_cur b of
                NoNode \<Rightarrow> \<lparr>b_root = Some r, b_cur = Detached new_node []\<rparr>
              | InRoot p \<Rightarrow>
                  \<lparr>b_root = Some (modify_at p (Node_append (INode new_node)) r),
                   b_cur = InRoot (p @ [child_count p r])\<rparr>
              | Detached d p \<Rightarrow>
                  \<lparr>b_root = Some r,
                   b_cur = Detached (modify_at p (Node_append (INode new_node)) d)
                           (p @ [child_count p d])\<rparr>))"

text \<open>Lines 421 and 422 (and 324 and 325): move to the parent of the current node.\<close>

definition close_node :: "builder \<Rightarrow> builder" where
  "close_node b =
     (case b_cur b of
        NoNode \<Rightarrow> b
      | InRoot p \<Rightarrow> b\<lparr>b_cur := (if p = [] then NoNode else InRoot (butlast p))\<rparr>
      | Detached d p \<Rightarrow> b\<lparr>b_cur := (if p = [] then NoNode else Detached d (butlast p))\<rparr>)"

text \<open>Lines 432 and 433 (and 374 and 375): append a property to the current node, if any.\<close>

definition add_prop :: "property \<Rightarrow> builder \<Rightarrow> builder" where
  "add_prop pr b =
     (case b_cur b of
        NoNode \<Rightarrow> b
      | InRoot p \<Rightarrow> b\<lparr>b_root := map_option (modify_at p (Node_append (IProp pr))) (b_root b)\<rparr>
      | Detached d p \<Rightarrow> b\<lparr>b_cur := Detached (modify_at p (Node_append (IProp pr)) d) p\<rparr>)"

section \<open>\<^verbatim>\<open>parse_dtb\<close>\<close>

text \<open>
  \<^verbatim>\<open>struct.unpack_from\<close> of big-endian unsigned fields at a position of the data;
  \<^verbatim>\<open>struct.error\<close> when the data is too short.  Positions are natural numbers: the
  offset and the header fields are not negative.
\<close>

definition be_nat :: "bytes \<Rightarrow> nat" where
  "be_nat bs = foldl (\<lambda>a b. a * 256 + b) 0 bs"

definition unpack_I :: "bytes \<Rightarrow> nat \<Rightarrow> error + nat" where
  "unpack_I data pos =
     (if pos + 4 \<le> length data then Inr (be_nat (take 4 (drop pos data))) else Inl Truncated)"

definition unpack_II :: "bytes \<Rightarrow> nat \<Rightarrow> error + (nat \<times> nat)" where
  "unpack_II data pos =
     (if pos + 8 \<le> length data
      then Inr (be_nat (take 4 (drop pos data)), be_nat (take 4 (drop (pos + 4) data)))
      else Inl Truncated)"

definition unpack_QQ :: "bytes \<Rightarrow> nat \<Rightarrow> error + (nat \<times> nat)" where
  "unpack_QQ data pos =
     (if pos + 16 \<le> length data
      then Inr (be_nat (take 8 (drop pos data)), be_nat (take 8 (drop (pos + 8) data)))
      else Inl Truncated)"

text \<open>The Python expression \<^verbatim>\<open>x & ~m\<close> on a non-negative \<open>x\<close>.\<close>

definition and_not :: "nat \<Rightarrow> int \<Rightarrow> nat" where
  "and_not x m = nat (int x AND NOT m)"

text \<open>
  Lines 394 to 400: the loop over the reservation pairs, from \<open>offset + index\<close>, until
  the pair of zeros.
\<close>

function read_entries :: "bytes \<Rightarrow> nat \<Rightarrow> nat \<Rightarrow> entry list \<Rightarrow> error + entry list" where
  "read_entries data offset index es =
     (case unpack_QQ data (offset + index) of
        Inl e \<Rightarrow> Inl e
      | Inr (a, s) \<Rightarrow>
          if a = 0 \<and> s = 0 then Inr es
          else read_entries data offset (index + 16) (es @ [\<lparr>address = int a, size_r = int s\<rparr>]))"
  by pat_completeness auto
termination
  by (relation "measure (\<lambda>(data, offset, index, es). length data - (offset + index))")
     (auto simp: unpack_QQ_def split: if_splits)

declare read_entries.simps [simp del]

text \<open>
  Lines 425 to 427: where the payload of a property starts, as an index relative to the
  start of the blob; \<open>index\<close> is the index of the length field.
\<close>

definition prop_start :: "int \<Rightarrow> nat \<Rightarrow> nat \<Rightarrow> nat" where
  "prop_start ver index prop_size =
     (if ver < 16 \<and> prop_size \<ge> 8 then and_not (index + 8 + 7) 7 else index + 8)"

text \<open>
  Lines 424 to 433: the branch for \<open>DTB_PROP\<close>; \<open>index\<close> is the index after the tag.
  The result is the next index and the tree under construction.  \<open>extract_string\<close>
  (\<^verbatim>\<open>fdt/misc.py\<close>) and \<open>new_property\<close> (\<^verbatim>\<open>fdt/item.py\<close>) are parameters.
\<close>

definition parse_prop ::
  "(bytes \<Rightarrow> nat \<Rightarrow> error + string) \<Rightarrow> (string \<Rightarrow> bytes \<Rightarrow> property) \<Rightarrow>
   header \<Rightarrow> bytes \<Rightarrow> nat \<Rightarrow> nat \<Rightarrow> builder \<Rightarrow> error + (nat \<times> builder)" where
  "parse_prop extract_string new_property hdr data offset index b =
     (case unpack_II data (offset + index) of
        Inl e \<Rightarrow> Inl e
      | Inr (prop_size, prop_string_pos) \<Rightarrow>
          (case version hdr of
             None \<Rightarrow> Inl TypeErr
           | Some ver \<Rightarrow>
               (let start = prop_start ver index prop_size
                in case extract_string data (off_dt_strings hdr + prop_string_pos) of
                     Inl e \<Rightarrow> Inl e
                   | Inr pname \<Rightarrow>
                       (let prop_raw_value = take prop_size (drop (offset + start) data)
                        in Inr (and_not (start + prop_size + 3) 3,
                                add_prop (new_property pname prop_raw_value) b)))))"

lemma and_not_mask_int: "(x::int) AND NOT (mask n) = x div 2 ^ n * 2 ^ n"
proof -
  have "x AND NOT (mask n) = push_bit n (drop_bit n x)"
    by (rule bit_eqI) (auto simp: bit_simps)
  then show ?thesis by (simp add: push_bit_eq_mult drop_bit_eq_div)
qed

lemma and_not_7: "and_not x 7 = x div 8 * 8"
proof -
  have "int x AND - 8 = int x div 8 * 8"
    using and_not_mask_int[of "int x" 3] by (simp add: mask_eq_exp_minus_1)
  then have "int x AND NOT 7 = int (x div 8 * 8)" by (simp add: zdiv_int)
  then show ?thesis by (simp add: and_not_def)
qed

lemma and_not_3: "and_not x 3 = x div 4 * 4"
proof -
  have "int x AND - 4 = int x div 4 * 4"
    using and_not_mask_int[of "int x" 2] by (simp add: mask_eq_exp_minus_1)
  then have "int x AND NOT 3 = int (x div 4 * 4)" by (simp add: zdiv_int)
  then show ?thesis by (simp add: and_not_def)
qed

lemma prop_start_ge: "index + 8 \<le> prop_start ver index prop_size"
  by (simp add: prop_start_def and_not_7) presburger

lemma parse_prop_index:
  "parse_prop xs np hdr data offset index b = Inr (index', b') \<Longrightarrow> index < index'"
proof -
  assume a: "parse_prop xs np hdr data offset index b = Inr (index', b')"
  then obtain ver sz where "index' = and_not (prop_start ver index sz + sz + 3) 3"
    by (auto simp: parse_prop_def Let_def split: sum.splits option.splits prod.splits)
  moreover have "index + 8 \<le> prop_start ver index sz" by (rule prop_start_ge)
  ultimately show ?thesis by (simp add: and_not_3)
qed

text \<open>
  Lines 405 to 437: the loop over the tags of the structure block.  \<open>DTB_NOP\<close> has no
  branch in the source and ends in the last one.
\<close>

function parse_nodes ::
  "(bytes \<Rightarrow> nat \<Rightarrow> error + string) \<Rightarrow> (string \<Rightarrow> bytes \<Rightarrow> property) \<Rightarrow>
   header \<Rightarrow> bytes \<Rightarrow> nat \<Rightarrow> nat \<Rightarrow> builder \<Rightarrow> error + builder" where
  "parse_nodes extract_string new_property hdr data offset index b =
     (if length data < offset + index + 4 then Inl Truncated
      else
        (let tag = be_nat (take 4 (drop (offset + index) data));
             index1 = index + 4
         in if tag = DTB_BEGIN_NODE then
              (case extract_string data (offset + index1) of
                 Inl e \<Rightarrow> Inl e
               | Inr node_name \<Rightarrow>
                   parse_nodes extract_string new_property hdr data offset
                     (and_not (index1 + length node_name + 4) 3)
                     (open_node (if node_name = [] then ''/'' else node_name) b))
            else if tag = DTB_END_NODE then
              parse_nodes extract_string new_property hdr data offset index1 (close_node b)
            else if tag = DTB_PROP then
              (case parse_prop extract_string new_property hdr data offset index1 b of
                 Inl e \<Rightarrow> Inl e
               | Inr (index2, b') \<Rightarrow>
                   parse_nodes extract_string new_property hdr data offset index2 b')
            else if tag = DTB_END then Inr b
            else Inl (UnknownTag tag)))"
  by pat_completeness auto
termination
proof (relation "measure (\<lambda>(xs, np, hdr, data, offset, index, b). length data - (offset + index))",
    goal_cases)
  case 1
  show ?case by simp
next
  case (2 xs np hdr data offset index b tag index1 node_name)
  have "index1 + length node_name + 4 - 3 \<le> and_not (index1 + length node_name + 4) 3"
    by (simp add: and_not_3)
  with 2 show ?case by simp
next
  case (3 xs np hdr data offset index b tag index1)
  then show ?case by simp
next
  case (4 xs np hdr data offset index b tag index1 res index2 b')
  then have "parse_prop xs np hdr data offset index1 b = Inr (index2, b')" by simp
  then have "index1 < index2" by (rule parse_prop_index)
  with 4 show ?case by auto
qed

declare parse_nodes.simps [simp del]

text \<open>
  \<^verbatim>\<open>parse_dtb(data, offset)\<close>.  \<open>Header_parse\<close> stands for \<^verbatim>\<open>Header.parse\<close> of
  \<^verbatim>\<open>fdt/head.py\<close>; line 392 calls it with \<^verbatim>\<open>data\<close> alone.
\<close>

definition parse_dtb ::
  "(bytes \<Rightarrow> error + header) \<Rightarrow> (bytes \<Rightarrow> nat \<Rightarrow> error + string) \<Rightarrow>
   (string \<Rightarrow> bytes \<Rightarrow> property) \<Rightarrow> bytes \<Rightarrow> nat \<Rightarrow> error + fdt" where
  "parse_dtb Header_parse extract_string new_property data offset =
     (case Header_parse data of
        Inl e \<Rightarrow> Inl e
      | Inr hdr \<Rightarrow>
          (case read_entries data offset (off_mem_rsvmap hdr) [] of
             Inl e \<Rightarrow> Inl e
           | Inr es \<Rightarrow>
               (case parse_nodes extract_string new_property hdr data offset
                       (off_dt_struct hdr) builder_init of
                  Inl e \<Rightarrow> Inl e
                | Inr b \<Rightarrow> Inr \<lparr>header = hdr, entries = es, root_node = b_root b\<rparr>)))"

subsection \<open>The helpers of \<^verbatim>\<open>fdt/head.py\<close>, \<^verbatim>\<open>fdt/misc.py\<close> and \<^verbatim>\<open>fdt/item.py\<close>, from the specification\<close>

text \<open>
  Modelled from the spec: \<^verbatim>\<open>Header.parse\<close> (section 4.A) at the start of the data: the
  seven words every version has, the magic and version checks, then the words the
  version adds.
\<close>

definition Header_parse_spec :: "bytes \<Rightarrow> error + header" where
  "Header_parse_spec data =
     (if length data < 28 then Inl Truncated
      else if be_nat (take 4 data) \<noteq> MAGIC_NUMBER then Inl BadMagic
      else
        (let ver = be_nat (take 4 (drop 20 data))
         in if ver < 2 \<or> ver > 17 then Inl UnsupportedVersion
            else if length data < Header_size_spec (int ver) then Inl Truncated
            else Inr \<lparr>total_size = be_nat (take 4 (drop 4 data)),
                      off_dt_struct = be_nat (take 4 (drop 8 data)),
                      off_dt_strings = be_nat (take 4 (drop 12 data)),
                      off_mem_rsvmap = be_nat (take 4 (drop 16 data)),
                      version = Some (int ver),
                      last_comp_version = int (be_nat (take 4 (drop 24 data))),
                      boot_cpuid_phys = int (be_nat (take 4 (drop 28 data))),
                      size_dt_strings =
                        (if ver \<ge> 3 then be_nat (take 4 (drop 32 data)) else 0),
                      size_dt_struct =
                        (if ver \<ge> 17 then be_nat (take 4 (drop 36 data)) else 0)\<rparr>))"

text \<open>
  Modelled from the spec: \<^verbatim>\<open>extract_string\<close> (section 4.E): the characters from a
  position up to the next NUL byte; an out-of-range read when there is none.
\<close>

definition extract_string_spec :: "bytes \<Rightarrow> nat \<Rightarrow> error + string" where
  "extract_string_spec data pos =
     (let rest = drop pos data
      in if 0 \<in> set rest then Inr (map char_of (takeWhile (\<lambda>b. b \<noteq> 0) rest))
         else Inl Truncated)"

text \<open>
  Modelled from the spec: \<^verbatim>\<open>new_property\<close> (section 4.C): the kind of a property is
  recovered from its payload: empty; words when the size is a multiple of four and the
  payload is not a list of printable NUL-terminated strings; strings when it is such a
  list; bytes otherwise.
\<close>

fun split_nul :: "bytes \<Rightarrow> bytes list" where
  "split_nul [] = [[]]"
| "split_nul (b # bs) =
     (if b = 0 then [] # split_nul bs
      else (case split_nul bs of [] \<Rightarrow> [[b]] | w # ws \<Rightarrow> (b # w) # ws))"

definition is_strings :: "bytes \<Rightarrow> bool" where
  "is_strings raw =
     (raw \<noteq> [] \<and> last raw = 0
      \<and> list_all (\<lambda>s. s \<noteq> [] \<and> list_all (\<lambda>b. 32 \<le> b \<and> b < 127) s) (split_nul (butlast raw)))"

fun words_of :: "bytes \<Rightarrow> int list" where
  "words_of (a # b # c # d # rest) = int (be_nat [a, b, c, d]) # words_of rest"
| "words_of _ = []"

definition new_property_spec :: "string \<Rightarrow> bytes \<Rightarrow> property" where
  "new_property_spec nm raw =
     (if raw = [] then Property nm
      else if length raw mod 4 = 0 \<and> \<not> is_strings raw then PropWords nm (words_of raw)
      else if is_strings raw then PropStrings nm (map (map char_of) (split_nul (butlast raw)))
      else PropBytes nm (map int raw))"

section \<open>\<^verbatim>\<open>parse_dts\<close>\<close>

subsection \<open>String methods\<close>

text \<open>The characters \<^verbatim>\<open>str.split()\<close> and \<^verbatim>\<open>str.strip()\<close> treat as white space.\<close>

definition is_space :: "char \<Rightarrow> bool" where
  "is_space c = ((of_char c :: nat) \<in> {9, 10, 11, 12, 13, 28, 29, 30, 31, 32, 133, 160})"

definition strip_ws :: "string \<Rightarrow> string" where
  "strip_ws s = rev (dropWhile is_space (rev (dropWhile is_space s)))"

text \<open>\<^verbatim>\<open>str.strip(chars)\<close>.\<close>

definition strip :: "char set \<Rightarrow> string \<Rightarrow> string" where
  "strip cs s = rstrip cs (lstrip cs s)"

text \<open>\<^verbatim>\<open>str.split()\<close>: the words between runs of white space.\<close>

fun words_acc :: "string \<Rightarrow> string \<Rightarrow> string list" where
  "words_acc w [] = (if w = [] then [] else [w])"
| "words_acc w (c # cs) =
     (if is_space c then (if w = [] then words_acc [] cs else w # words_acc [] cs)
      else words_acc (w @ [c]) cs)"

definition split_ws :: "string \<Rightarrow> string list" where
  "split_ws s = words_acc [] s"

definition startswith :: "string \<Rightarrow> string \<Rightarrow> bool" where
  "startswith p s = (take (length p) s = p)"

definition endswith :: "string \<Rightarrow> string \<Rightarrow> bool" where
  "endswith p s = (length p \<le> length s \<and> drop (length s - length p) s = p)"

text \<open>\<^verbatim>\<open>str.split(sep)\<close> for a non-empty separator.\<close>

function split_str :: "string \<Rightarrow> string \<Rightarrow> string list" where
  "split_str sep s =
     (if sep = [] \<or> s = [] then [s]
      else if take (length sep) s = sep then [] # split_str sep (drop (length sep) s)
      else (case split_str sep (tl s) of [] \<Rightarrow> [[hd s]] | w # ws \<Rightarrow> (hd s # w) # ws))"
  by pat_completeness auto
termination
proof (relation "measure (\<lambda>(sep, s). length s)")
  show "wf (measure (\<lambda>(sep, s). length s))" by simp
next
  fix sep s :: string
  assume "\<not> (sep = [] \<or> s = [])"
  then show "((sep, drop (length sep) s), sep, s) \<in> measure (\<lambda>(sep, s). length s)"
    by (cases sep) auto
next
  fix sep s :: string
  assume "\<not> (sep = [] \<or> s = [])"
  then show "((sep, tl s), sep, s) \<in> measure (\<lambda>(sep, s). length s)"
    by (cases s) auto
qed

declare split_str.simps [simp del]

text \<open>
  \<^verbatim>\<open>int(s, base)\<close> for the bases 0, 2, 8, 10 and 16: white space around the number, a
  sign, the prefix of the base, digits with single underscores between them; a decimal
  number of base 0 has no leading zero unless it is zero.  \<^verbatim>\<open>ValueError\<close> otherwise.
\<close>

definition digit_val :: "char \<Rightarrow> nat option" where
  "digit_val c =
     (let n = (of_char c :: nat)
      in if 48 \<le> n \<and> n \<le> 57 then Some (n - 48)
         else if 97 \<le> n \<and> n \<le> 122 then Some (n - 87)
         else if 65 \<le> n \<and> n \<le> 90 then Some (n - 55)
         else None)"

fun digits_val :: "nat \<Rightarrow> bool \<Rightarrow> bool \<Rightarrow> int \<Rightarrow> string \<Rightarrow> int option" where
  "digits_val b us_ok last_digit acc [] = (if last_digit then Some acc else None)"
| "digits_val b us_ok last_digit acc (c # cs) =
     (if c = CHR ''_'' then (if us_ok then digits_val b False False acc cs else None)
      else (case digit_val c of
              None \<Rightarrow> None
            | Some d \<Rightarrow> if d < b then digits_val b True True (acc * int b + int d) cs else None))"

definition has_prefix :: "char \<Rightarrow> char \<Rightarrow> string \<Rightarrow> bool" where
  "has_prefix lo up s = (case s of c0 # c1 # _ \<Rightarrow> c0 = CHR ''0'' \<and> (c1 = lo \<or> c1 = up) | _ \<Rightarrow> False)"

definition unsigned_val :: "nat \<Rightarrow> string \<Rightarrow> int option" where
  "unsigned_val base u =
     (if (base = 0 \<or> base = 16) \<and> has_prefix CHR ''x'' CHR ''X'' u
        then digits_val 16 True False 0 (drop 2 u)
      else if (base = 0 \<or> base = 8) \<and> has_prefix CHR ''o'' CHR ''O'' u
        then digits_val 8 True False 0 (drop 2 u)
      else if (base = 0 \<or> base = 2) \<and> has_prefix CHR ''b'' CHR ''B'' u
        then digits_val 2 True False 0 (drop 2 u)
      else if base = 0
        then (case digits_val 10 False False 0 u of
                None \<Rightarrow> None
              | Some v \<Rightarrow> if v \<noteq> 0 \<and> take 1 u = ''0'' then None else Some v)
      else digits_val base False False 0 u)"

definition py_int :: "nat \<Rightarrow> string \<Rightarrow> error + int" where
  "py_int base s =
     (let t = strip_ws s;
          neg = (take 1 t = ''-'');
          u = (if take 1 t = ''-'' \<or> take 1 t = ''+'' then drop 1 t else t)
      in case unsigned_val base u of
           None \<Rightarrow> Inl SyntaxErr
         | Some v \<Rightarrow> Inr (if neg then - v else v))"

text \<open>A loop that converts every element of a list and stops at the first exception.\<close>

fun mapM :: "('a \<Rightarrow> error + 'b) \<Rightarrow> 'a list \<Rightarrow> error + 'b list" where
  "mapM f [] = Inr []"
| "mapM f (x # xs) =
     (case f x of
        Inl e \<Rightarrow> Inl e
      | Inr y \<Rightarrow> (case mapM f xs of Inl e \<Rightarrow> Inl e | Inr ys \<Rightarrow> Inr (y # ys)))"

subsection \<open>The two passes over the lines\<close>

text \<open>
  Lines 300 to 308: the first pass collects the \<^verbatim>\<open>/memreserve/\<close> statements up to the
  first line that opens a node; \<open>memreserve_entry\<close> is the body for one statement (lines
  304 to 308).
\<close>

definition memreserve_entry :: "string \<Rightarrow> error + entry" where
  "memreserve_entry line =
     (let ws = split_ws (strip {CHR '';''} line)
      in if length ws \<noteq> 3 then Inl SyntaxErr
         else (case py_int 0 (ws ! 1) of
                 Inl e \<Rightarrow> Inl e
               | Inr a \<Rightarrow>
                   (case py_int 0 (ws ! 2) of
                      Inl e \<Rightarrow> Inl e
                    | Inr s \<Rightarrow> Inr \<lparr>address = a, size_r = s\<rparr>)))"

fun read_memreserve :: "string list \<Rightarrow> entry list \<Rightarrow> error + entry list" where
  "read_memreserve [] es = Inr es"
| "read_memreserve (line # rest) es =
     (if endswith ''{'' line then Inr es
      else if startswith ''/memreserve/'' line then
        (case memreserve_entry line of
           Inl e \<Rightarrow> Inl e
         | Inr entry \<Rightarrow> read_memreserve rest (es @ [entry]))
      else read_memreserve rest es)"

text \<open>Lines 339 to 346: one cell of a word array.\<close>

definition parse_cell :: "string \<Rightarrow> error + int" where
  "parse_cell p =
     (if startswith ''0x'' p then py_int 16 p
      else if startswith ''0b'' p then py_int 2 p
      else if startswith ''0'' p then py_int 8 p
      else py_int 10 p)"

text \<open>
  Lines 328 to 373: the property of a statement.  \<open>load_file root_dir name\<close> stands for
  the file access of lines 355 to 363 when the statement gives a path only: the bytes
  of the file and its base name, or the exception for a missing file.  With an offset
  or a length, lines 356 and 357 call \<^verbatim>\<open>strip\<close> on a list.
\<close>

definition parse_statement ::
  "(string \<Rightarrow> string \<Rightarrow> error + (bytes \<times> string)) \<Rightarrow> string \<Rightarrow> string \<Rightarrow> error + property" where
  "parse_statement load_file root_dir line =
     (if CHR ''='' \<notin> set line then Inr (Property line)
      else
        (let pname = rstrip {CHR '' ''} (takeWhile (\<lambda>c. c \<noteq> CHR ''='') line);
             prop_value = lstrip {CHR '' ''} (drop 1 (dropWhile (\<lambda>c. c \<noteq> CHR ''='') line))
         in if startswith ''<'' prop_value then
              (case mapM parse_cell
                      (split_ws (replace_str ''>'' [] (replace_str ''<'' [] prop_value))) of
                 Inl e \<Rightarrow> Inl e
               | Inr ws \<Rightarrow> Inr (PropWords pname ws))
            else if startswith ''['' prop_value then
              (case mapM (py_int 16)
                      (split_ws (replace_str '']'' [] (replace_str ''['' [] prop_value))) of
                 Inl e \<Rightarrow> Inl e
               | Inr bs \<Rightarrow> Inr (PropBytes pname bs))
            else if startswith ''/incbin/'' prop_value then
              (let fields = split_str '',''
                     (replace_str [CHR 0x22, CHR '')''] []
                        (replace_str (''/incbin/('' @ [CHR 0x22]) [] prop_value))
               in if length fields > 1 then Inl TypeErr
                  else (case load_file root_dir (strip_ws (hd fields)) of
                          Inl e \<Rightarrow> Inl e
                        | Inr (prop_data, base) \<Rightarrow> Inr (PropIncBin pname prop_data base)))
            else if startswith ''/plugin/'' prop_value then Inl Unsupported
            else if startswith ''/bits/'' prop_value then Inl Unsupported
            else
              Inr (PropStrings pname
                     (map (\<lambda>p. strip_ws (replace_str [CHR 0x22] [] p))
                        (split_str [CHR 0x22, CHR '',''] prop_value)))))"

text \<open>Lines 313 to 375: the body of the second pass for one line.\<close>

definition dts_line ::
  "(string \<Rightarrow> string \<Rightarrow> error + (bytes \<times> string)) \<Rightarrow> string \<Rightarrow> string \<Rightarrow> builder \<Rightarrow> error + builder" where
  "dts_line load_file root_dir line b =
     (if endswith ''{'' line then
        (case split_ws line of
           [] \<Rightarrow> Inl Truncated
         | node_name # _ \<Rightarrow> Inr (open_node node_name b))
      else if endswith ''}'' line then Inr (close_node b)
      else (case parse_statement load_file root_dir line of
              Inl e \<Rightarrow> Inl e
            | Inr prop_obj \<Rightarrow> Inr (add_prop prop_obj b)))"

text \<open>
  Lines 291 to 297: the header of the new tree takes the version hints found.  Line 293
  is an assignment to \<^verbatim>\<open>fdt_obj.header.version\<close>: it runs the setter
  \<open>Header_set_version\<close> on the new header, which can raise and which may write other
  fields; lines 295 and 297 are plain attribute writes on its result.
\<close>

definition hinted_header ::
  "(int \<Rightarrow> header \<Rightarrow> error + header) \<Rightarrow> (string \<rightharpoonup> int) \<Rightarrow> error + header" where
  "hinted_header Header_set_version ver =
     (case (case ver ''version'' of None \<Rightarrow> Inr Header_new
            | Some v \<Rightarrow> Header_set_version v Header_new) of
        Inl e \<Rightarrow> Inl e
      | Inr h1 \<Rightarrow>
          (let h2 = (case ver ''last_comp_version'' of None \<Rightarrow> h1
                     | Some v \<Rightarrow> h1\<lparr>last_comp_version := v\<rparr>)
           in Inr (case ver ''boot_cpuid_phys'' of None \<Rightarrow> h2
                   | Some v \<Rightarrow> h2\<lparr>boot_cpuid_phys := v\<rparr>)))"

text \<open>Lines 291 to 377, from the version hints and the logical lines.\<close>

definition parse_dts_lines ::
  "(int \<Rightarrow> header \<Rightarrow> error + header) \<Rightarrow> (string \<Rightarrow> string \<Rightarrow> error + (bytes \<times> string)) \<Rightarrow>
   (string \<rightharpoonup> int) \<Rightarrow> string list \<Rightarrow> string \<Rightarrow> error + fdt" where
  "parse_dts_lines Header_set_version load_file ver dts_lines root_dir =
     (case hinted_header Header_set_version ver of
        Inl e \<Rightarrow> Inl e
      | Inr h \<Rightarrow>
          (case read_memreserve dts_lines [] of
             Inl e \<Rightarrow> Inl e
           | Inr es \<Rightarrow>
               (case foldM (dts_line load_file root_dir) dts_lines builder_init of
                  Inl e \<Rightarrow> Inl e
                | Inr b \<Rightarrow> Inr \<lparr>header = h, entries = es, root_node = b_root b\<rparr>)))"

text \<open>
  \<^verbatim>\<open>parse_dts(text, root_dir)\<close>.  \<open>get_version_info\<close>, \<open>strip_comments\<close> and
  \<open>split_to_lines\<close> are the functions of \<^verbatim>\<open>fdt/misc.py\<close>, \<open>Header_set_version\<close> is the
  setter of \<^verbatim>\<open>Header.version\<close>, \<open>load_file\<close> the file system.
\<close>

definition parse_dts ::
  "(int \<Rightarrow> header \<Rightarrow> error + header) \<Rightarrow> (string \<Rightarrow> (string \<rightharpoonup> int)) \<Rightarrow> (string \<Rightarrow> string) \<Rightarrow>
   (string \<Rightarrow> string list) \<Rightarrow> (string \<Rightarrow> string \<Rightarrow> error + (bytes \<times> string)) \<Rightarrow>
   string \<Rightarrow> string \<Rightarrow> error + fdt" where
  "parse_dts Header_set_version get_version_info strip_comments split_to_lines load_file
     text root_dir =
     parse_dts_lines Header_set_version load_file (get_version_info text)
       (split_to_lines (strip_comments text)) root_dir"

text \<open>
  Modelled from the spec: \<^verbatim>\<open>get_version_info\<close> (section 4.G, step 2): the hints are the
  line comments \<^verbatim>\<open>// version: N\<close>, \<^verbatim>\<open>// last_comp_version: N\<close> and
  \<^verbatim>\<open>// boot_cpuid_phys: 0xN\<close>; the number is read as by \<^verbatim>\<open>int(s, 0)\<close>.  A comment that is
  not of this form gives no hint.
\<close>

definition hint_of_line :: "string \<Rightarrow> (string \<times> int) option" where
  "hint_of_line line =
     (let l = strip_ws line
      in if startswith ''//'' l then
           (case split_ws (replace_str '':'' [] (drop 2 l)) of
              k # v # _ \<Rightarrow>
                (if k = ''version'' \<or> k = ''last_comp_version'' \<or> k = ''boot_cpuid_phys''
                 then (case py_int 0 v of Inl e \<Rightarrow> None | Inr n \<Rightarrow> Some (k, n))
                 else None)
            | _ \<Rightarrow> None)
         else None)"

definition get_version_info_spec :: "string \<Rightarrow> (string \<rightharpoonup> int)" where
  "get_version_info_spec text =
     foldl (\<lambda>m line. case hint_of_line line of None \<Rightarrow> m | Some (k, n) \<Rightarrow> m(k \<mapsto> n))
       Map.empty (split_on (CHR 0x0A) text)"

text \<open>
  Modelled from the spec: \<^verbatim>\<open>strip_comments\<close> (section 4.G, step 1): \<^verbatim>\<open>// ...\<close> up to the
  end of the line and \<^verbatim>\<open>/* ... */\<close> are removed, except inside a string literal.  The
  scanner reads one character at a time; its state says whether it is in code, after a
  \<^verbatim>\<open>/\<close> in code, in a string literal, in a line comment, in a block comment, or after a
  \<^verbatim>\<open>*\<close> in a block comment.
\<close>

datatype scan = Code | Slash | Quoted | LineComment | BlockComment | Star

fun strip_from :: "scan \<Rightarrow> string \<Rightarrow> string" where
  "strip_from Code [] = []"
| "strip_from Slash [] = ''/''"
| "strip_from Quoted [] = []"
| "strip_from LineComment [] = []"
| "strip_from BlockComment [] = []"
| "strip_from Star [] = []"
| "strip_from Code (c # cs) =
     (if c = CHR ''/'' then strip_from Slash cs
      else if c = CHR 0x22 then c # strip_from Quoted cs
      else c # strip_from Code cs)"
| "strip_from Slash (c # cs) =
     (if c = CHR ''/'' then strip_from LineComment cs
      else if c = CHR ''*'' then strip_from BlockComment cs
      else if c = CHR 0x22 then CHR ''/'' # c # strip_from Quoted cs
      else CHR ''/'' # c # strip_from Code cs)"
| "strip_from Quoted (c # cs) =
     (if c = CHR 0x22 then c # strip_from Code cs else c # strip_from Quoted cs)"
| "strip_from LineComment (c # cs) =
     (if c = CHR 0x0A then c # strip_from Code cs else strip_from LineComment cs)"
| "strip_from BlockComment (c # cs) =
     (if c = CHR ''*'' then strip_from Star cs else strip_from BlockComment cs)"
| "strip_from Star (c # cs) =
     (if c = CHR ''/'' then strip_from Code cs
      else if c = CHR ''*'' then strip_from Star cs
      else strip_from BlockComment cs)"

definition strip_comments_spec :: "string \<Rightarrow> string" where
  "strip_comments_spec text = strip_from Code text"

text \<open>
  Modelled from the spec: \<^verbatim>\<open>split_to_lines\<close> (section 4.G): the text is cut at the line
  ends, the blanks around each piece are dropped, empty pieces and the \<^verbatim>\<open>/dts-v1/\<close>
  preamble are skipped, pieces are joined until one ends with \<^verbatim>\<open>{\<close> or \<^verbatim>\<open>;\<close>, and the
  semicolons are removed.
\<close>

fun join_lines :: "string \<Rightarrow> string list \<Rightarrow> string list" where
  "join_lines acc [] = []"
| "join_lines acc (l # ls) =
     (let l' = strip_ws l
      in if l' = [] \<or> startswith ''/dts-'' l' then join_lines acc ls
         else if endswith ''{'' l' \<or> endswith '';'' l'
           then (acc @ replace_str '';'' [] l') # join_lines [] ls
         else join_lines (acc @ l') ls)"

definition split_to_lines_spec :: "string \<Rightarrow> string list" where
  "split_to_lines_spec text = join_lines [] (split_on (CHR 0x0A) text)"


text \<open>
  A property statement whose value starts with \<^verbatim>\<open>/plugin/\<close> or \<^verbatim>\<open>/bits/\<close>: a line that
  neither opens nor closes a node, with such a value after its first \<^verbatim>\<open>=\<close>.
\<close>

definition unsupported_stmt :: "string \<Rightarrow> bool" where
  "unsupported_stmt line =
     (\<not> endswith ''{'' line \<and> \<not> endswith ''}'' line \<and> CHR ''='' \<in> set line
      \<and> (let v = lstrip {CHR '' ''} (drop 1 (dropWhile (\<lambda>c. c \<noteq> CHR ''='') line))
         in startswith ''/plugin/'' v \<or> startswith ''/bits/'' v))"

section \<open>Example trees and blobs\<close>

text \<open>
  A tree with one reservation, a word property on the root and a child \<^verbatim>\<open>cpu\<close> with a
  string property of the same name, and the blob the emitter writes for it at version 17.
\<close>

definition example_root :: node where
  "example_root = Node ''/'' [PropWords ''bar'' [1, 2, 3]]
                    [Node ''cpu'' [PropStrings ''bar'' [''hello'']] []]"

definition example_tree :: fdt where
  "example_tree = \<lparr>header = Header_new,
     entries = [\<lparr>address = 0x10000000, size_r = 0x200000\<rparr>],
     root_node = Some example_root\<rparr>"

definition example_header :: header where
  "example_header = \<lparr>total_size = 148, off_dt_struct = 72, off_dt_strings = 144,
     off_mem_rsvmap = 40, version = Some 17, last_comp_version = 16,
     boot_cpuid_phys = 0, size_dt_strings = 4, size_dt_struct = 72\<rparr>"

definition example_blob :: bytes where
  "example_blob =
     [208, 13, 254, 237, 0, 0, 0, 148, 0, 0, 0, 72, 0, 0, 0, 144,
      0, 0, 0, 40, 0, 0, 0, 17, 0, 0, 0, 16, 0, 0, 0, 0,
      0, 0, 0, 4, 0, 0, 0, 72,
      0, 0, 0, 0, 16, 0, 0, 0, 0, 0, 0, 0, 0, 32, 0, 0,
      0, 0, 0, 0, 0, 0, 0, 0, 0, 0, 0, 0, 0, 0, 0, 0,
      0, 0, 0, 1, 0, 0, 0, 0,
      0, 0, 0, 3, 0, 0, 0, 12, 0, 0, 0, 0, 0, 0, 0, 1, 0, 0, 0, 2, 0, 0, 0, 3,
      0, 0, 0, 1, 99, 112, 117, 0,
      0, 0, 0, 3, 0, 0, 0, 6, 0, 0, 0, 0, 104, 101, 108, 108, 111, 0, 0, 0,
      0, 0, 0, 2, 0, 0, 0, 2, 0, 0, 0, 9,
      98, 97, 114, 0]"

text \<open>A tree with two levels of children.\<close>

definition example_wide :: node where
  "example_wide =
     Node ''/'' [Property ''p'']
       [Node ''a'' [] [Node ''a1'' [] [], Node ''a2'' [] []],
        Node ''b'' [Property ''q''] [Node ''b1'' [] []]]"

text \<open>
  A blob of version 15 whose root has one property \<^verbatim>\<open>reg\<close> of length 8: four bytes of
  padding bring the payload to index 80.  \<open>blob16\<close> is the same blob with version 16 in
  the header.
\<close>

definition blob15 :: bytes where
  "blob15 =
     [208, 13, 254, 237, 0, 0, 0, 100, 0, 0, 0, 56, 0, 0, 0, 96,
      0, 0, 0, 40, 0, 0, 0, 15, 0, 0, 0, 2, 0, 0, 0, 0,
      0, 0, 0, 4, 0, 0, 0, 0,
      0, 0, 0, 0, 0, 0, 0, 0, 0, 0, 0, 0, 0, 0, 0, 0,
      0, 0, 0, 1, 0, 0, 0, 0,
      0, 0, 0, 3, 0, 0, 0, 8, 0, 0, 0, 0,
      170, 187, 204, 221, 0, 0, 0, 1, 0, 0, 0, 2,
      0, 0, 0, 2, 0, 0, 0, 9,
      114, 101, 103, 0]"

definition blob16 :: bytes where
  "blob16 = blob15[23 := 16]"

definition header15 :: header where
  "header15 = \<lparr>total_size = 100, off_dt_struct = 56, off_dt_strings = 96,
     off_mem_rsvmap = 40, version = Some 15, last_comp_version = 2,
     boot_cpuid_phys = 0, size_dt_strings = 4, size_dt_struct = 0\<rparr>"

text \<open>
  Texts: a \<^verbatim>\<open>/plugin/\<close> statement after a malformed \<^verbatim>\<open>/memreserve/\<close>, the same after a
  well-formed one, a text with version hints that opens no node, and a text that opens
  no node and has a \<^verbatim>\<open>/plugin/\<close> statement.  \<open>no_file\<close> is a file system without files,
  \<open>no_comments\<close> leaves a text as it is, \<open>no_hints\<close> finds no version hint.
\<close>

definition dts_plugin_bad :: string where
  "dts_plugin_bad =
     ''/memreserve/ 0x1000;'' @ [CHR 0x0A] @ ''/ {'' @ [CHR 0x0A]
     @ ''  a = /plugin/;'' @ [CHR 0x0A] @ ''};'' @ [CHR 0x0A]"

definition dts_plugin :: string where
  "dts_plugin =
     ''/memreserve/ 0x1000 0x10;'' @ [CHR 0x0A] @ ''/ {'' @ [CHR 0x0A]
     @ ''  a = /plugin/;'' @ [CHR 0x0A] @ ''};'' @ [CHR 0x0A]"

definition dts_hinted :: string where
  "dts_hinted =
     ''// version: 17'' @ [CHR 0x0A] @ ''// boot_cpuid_phys: 0x1'' @ [CHR 0x0A]
     @ ''/memreserve/ 0x1000 0x10;'' @ [CHR 0x0A] @ ''a = <1>;'' @ [CHR 0x0A]"

definition dts_stray :: string where
  "dts_stray = ''a = /plugin/;'' @ [CHR 0x0A]"

definition no_comments :: "string \<Rightarrow> string" where
  "no_comments text = text"

definition no_file :: "string \<Rightarrow> string \<Rightarrow> error + (bytes \<times> string)" where
  "no_file root_dir nm = Inl IoError"

definition no_hints :: "string \<Rightarrow> (string \<rightharpoonup> int)" where
  "no_hints text = Map.empty"

text \<open>
  An instance of the parameter of \<open>add_item\<close>: \<^verbatim>\<open>Node.append\<close> raises for an item whose
  name the node already has.
\<close>

definition refuse_taken :: "item \<Rightarrow> node \<Rightarrow> error + node" where
  "refuse_taken obj n = Inl NameTaken"

text \<open>
  Three trees on which \<^verbatim>\<open>diff\<close> of the tree with itself does not give the tree back: a
  root named \<^verbatim>\<open>x\<close> (as \<^verbatim>\<open>parse_dts\<close> builds for a text that opens with \<^verbatim>\<open>x {\<close>), a child
  named \<^verbatim>\<open>/\<close> (the name line 413 of \<^verbatim>\<open>parse_dtb\<close> gives to every node whose name in the
  blob is empty), and a child with the empty name; each has one property \<^verbatim>\<open>p\<close>.
\<close>

definition tree_root_x :: fdt where
  "tree_root_x = \<lparr>header = Header_new, entries = [],
     root_node = Some (Node ''x'' [Property ''p''] [])\<rparr>"

definition tree_child_slash :: fdt where
  "tree_child_slash = \<lparr>header = Header_new, entries = [],
     root_node = Some (Node ''/'' [] [Node ''/'' [Property ''p''] []])\<rparr>"

definition tree_child_noname :: fdt where
  "tree_child_noname = \<lparr>header = Header_new, entries = [],
     root_node = Some (Node ''/'' [] [Node [] [Property ''p''] []])\<rparr>"

text \<open>The trees \<^verbatim>\<open>diff\<close> returns for them.\<close>

definition only_x :: fdt where
  "only_x = \<lparr>header = Header_new, entries = [],
     root_node = Some (Node ''/'' [] [Node ''x'' [Property ''p''] []])\<rparr>"

definition same_slash :: fdt where
  "same_slash = \<lparr>header = Header_new, entries = [],
     root_node = Some (Node ''/'' [] [Node ''/'' [] []])\<rparr>"

definition same_noname :: fdt where
  "same_noname = \<lparr>header = Header_new, entries = [],
     root_node = Some (Node ''/'' [] [Node [] [] []])\<rparr>"

definition only_p :: fdt where
  "only_p = \<lparr>header = Header_new, entries = [],
     root_node = Some (Node ''/'' [Property ''p''] [])\<rparr>"

text \<open>A tree with two levels of children, a reservation and a version.\<close>

definition wide_tree :: fdt where
  "wide_tree = \<lparr>header = Header_new\<lparr>version := Some 17\<rparr>,
     entries = [\<lparr>address = 4096, size_r = 16\<rparr>], root_node = Some example_wide\<rparr>"
section \<open>Reservation entries under \<^verbatim>\<open>merge\<close>\<close>

lemma merge_entry_absent:
  "address e \<notin> address ` set es \<Longrightarrow> merge_entry e es = es @ [e]"
  by (induction es) auto

text \<open>
  Claim C1.  Merging the reservation list [(address 1, size 3)] into the list
  [(address 1, size 2)] does not leave the existing entry unchanged: the statement at
  line 213 stores the incoming size in the address field, and the result is the single
  entry (address 3, size 2).
\<close>

theorem merge_entries_overwrites_address:
  "merge_entries [\<lparr>address = 1, size_r = 2\<rparr>] [\<lparr>address = 1, size_r = 3\<rparr>]
   = [\<lparr>address = 3, size_r = 2\<rparr>]"
  by (simp add: merge_entries_def)

section \<open>Header fields after \<^verbatim>\<open>to_dtb\<close>\<close>

lemma be_bytes_4:
  "be_bytes 4 n = [n div 256 div 256 div 256 mod 256, n div 256 div 256 mod 256,
                   n div 256 mod 256, n mod 256]"
proof -
  have h: "(4::nat) = Suc (Suc (Suc (Suc 0)))" by simp
  show ?thesis by (subst h) simp
qed

lemma be_bytes_8:
  "be_bytes 8 n = be_bytes 4 (n div 256 div 256 div 256 div 256) @ be_bytes 4 n"
proof -
  have h: "(8::nat) = Suc (Suc (Suc (Suc (Suc (Suc (Suc (Suc 0)))))))" by simp
  show ?thesis by (subst h) (simp add: be_bytes_4)
qed

lemma length_be_bytes: "length (be_bytes k n) = k"
  by (induction k arbitrary: n) auto

lemma replicate_2: "replicate 2 x = [x, x]"
  by (simp add: numeral_2_eq_2)

lemma replicate_3: "replicate 3 x = [x, x, x]"
  by (simp add: numeral_3_eq_3)

lemma length_encode_ascii: "encode_ascii s = Inr b \<Longrightarrow> length b = length s"
  by (auto simp: encode_ascii_def split: if_splits)

lemmas emit_defs = to_dtb_def set_header_args_def Header_set_version_spec_def Header_size_spec_def Header_export_spec_def
  DTB_END_def DTB_BEGIN_NODE_def DTB_END_NODE_def DTB_PROP_def encode_ascii_def pad4_def Let_def
  MAGIC_NUMBER_def be_bytes_4 be_bytes_8 replicate_2 replicate_3 pack_QQ_def Prop_to_dtb_def
  intern_def

lemma example_to_dtb:
  "to_dtb Header_set_version_spec Header_size_spec Node_to_dtb_spec Header_export_spec
     (Some 17) None None example_tree
   = (Inr (Some example_blob), example_tree\<lparr>header := example_header\<rparr>)"
  by (simp add: example_tree_def example_root_def example_blob_def example_header_def
      Header_new_def emit_defs)

text \<open>
  Claim C2.  When \<^verbatim>\<open>to_dtb\<close> returns for a tree with a root node, the version is set
  and the header of the tree satisfies
  \<open>off_dt_struct + size_dt_struct = off_dt_strings\<close>,
  \<open>off_dt_strings + size_dt_strings = total_size\<close> and
  \<open>off_mem_rsvmap = header size\<close>.
\<close>

theorem to_dtb_header_layout:
  assumes "root_node self = Some r"
    and "to_dtb Header_set_version Header_size Node_to_dtb Header_export ver lcv bcp self
           = (Inr res, self')"
  shows "off_dt_struct (header self') + size_dt_struct (header self')
           = off_dt_strings (header self')
       \<and> off_dt_strings (header self') + size_dt_strings (header self')
           = total_size (header self')
       \<and> (\<exists>v. version (header self') = Some v
              \<and> off_mem_rsvmap (header self') = Header_size v)"
  using assms
  by (auto simp: to_dtb_def Let_def set_header_args_def
      split: option.splits sum.splits prod.splits)

theorem to_dtb_header_layout_witness:
  "to_dtb Header_set_version_spec Header_size_spec Node_to_dtb_spec Header_export_spec
     (Some 17) None None example_tree
     = (Inr (Some example_blob), example_tree\<lparr>header := example_header\<rparr>)
   \<and> off_dt_struct example_header + size_dt_struct example_header
       = off_dt_strings example_header
   \<and> off_dt_strings example_header + size_dt_strings example_header
       = total_size example_header
   \<and> version example_header = Some 17
   \<and> off_mem_rsvmap example_header = Header_size_spec 17"
proof -
  have root: "root_node example_tree = Some example_root"
    by (simp add: example_tree_def)
  show ?thesis
    using to_dtb_header_layout [OF root example_to_dtb] example_to_dtb
    by (simp add: example_header_def)
qed

text \<open>
  Claim C9.  Whatever \<^verbatim>\<open>to_dtb\<close> returns or raises, the root node and the reservation
  list of the tree are the ones before the call.  When it returns a blob, the blob is
  the exported header of the tree after the call, followed by the packed reservations
  with their terminator, the structure block closed by \<open>DTB_END\<close>, and the string
  block; the header fields \<open>off_mem_rsvmap\<close>, \<open>off_dt_struct\<close>, \<open>size_dt_struct\<close>,
  \<open>off_dt_strings\<close>, \<open>size_dt_strings\<close> and \<open>total_size\<close> are the offsets and lengths of
  these blocks.  The three optional arguments are stored where given: \<open>h1\<close> is the
  header before the call when no version is given and the header that the setter of
  \<^verbatim>\<open>Header.version\<close> returns for the given version otherwise; the version after the call
  is the one of \<open>h1\<close>, and \<open>last_comp_version\<close> and \<open>boot_cpuid_phys\<close> are the arguments
  where given and the fields of \<open>h1\<close> otherwise.
\<close>

theorem to_dtb_frame:
  assumes "to_dtb Sv Hs Nd He ver lcv bcp self = (res, self')"
  shows "root_node self' = root_node self \<and> entries self' = entries self
     \<and> (\<forall>blob. res = Inr (Some blob) \<longrightarrow>
          (\<exists>v r hb packed data strs pos sb h1.
              version (header self') = Some v \<and> root_node self = Some r
            \<and> pack_entries (entries self) = Inr packed
            \<and> Nd r [] (Hs v + (length packed + 16)) v = Inr (data, strs, pos)
            \<and> He (header self') = Inr hb \<and> encode_ascii strs = Inr sb
            \<and> blob = hb @ (packed @ be_bytes 8 0 @ be_bytes 8 0)
                        @ (data @ be_bytes 4 DTB_END) @ sb
            \<and> off_mem_rsvmap (header self') = Hs v
            \<and> off_dt_struct (header self') = Hs v + (length packed + 16)
            \<and> size_dt_struct (header self') = length data + 4
            \<and> off_dt_strings (header self') = Hs v + (length packed + 16) + (length data + 4)
            \<and> size_dt_strings (header self') = length sb
            \<and> total_size (header self')
                = Hs v + (length packed + 16) + (length data + 4) + length sb
            \<and> (case ver of Some x \<Rightarrow> Sv x (header self) = Inr h1 | None \<Rightarrow> h1 = header self)
            \<and> version (header self') = version h1
            \<and> last_comp_version (header self')
                = (case lcv of Some x \<Rightarrow> x | None \<Rightarrow> last_comp_version h1)
            \<and> boot_cpuid_phys (header self')
                = (case bcp of Some x \<Rightarrow> x | None \<Rightarrow> boot_cpuid_phys h1)))"
  using assms
  by (auto simp: to_dtb_def Let_def set_header_args_def length_encode_ascii length_be_bytes
      split: option.splits sum.splits prod.splits)

theorem to_dtb_frame_witness:
  "to_dtb Header_set_version_spec Header_size_spec Node_to_dtb_spec Header_export_spec
     (Some 17) None None example_tree
     = (Inr (Some example_blob), example_tree\<lparr>header := example_header\<rparr>)
   \<and> root_node (example_tree\<lparr>header := example_header\<rparr>) = root_node example_tree
   \<and> entries (example_tree\<lparr>header := example_header\<rparr>) = entries example_tree
   \<and> header example_tree \<noteq> example_header
   \<and> length example_blob = total_size example_header
   \<and> take 4 (drop 4 example_blob) = be_bytes 4 (total_size example_header)
   \<and> take 4 (drop 8 example_blob) = be_bytes 4 (off_dt_struct example_header)
   \<and> take 4 (drop 12 example_blob) = be_bytes 4 (off_dt_strings example_header)
   \<and> take 4 (drop 16 example_blob) = be_bytes 4 (off_mem_rsvmap example_header)
   \<and> take 4 (drop 20 example_blob) = be_bytes 4 17
   \<and> take 4 (drop 24 example_blob) = be_bytes 4 16
   \<and> take 4 (drop 32 example_blob) = be_bytes 4 (size_dt_strings example_header)
   \<and> take 4 (drop 36 example_blob) = be_bytes 4 (size_dt_struct example_header)
   \<and> Header_set_version_spec 17 (header example_tree)
       = Inr (Header_new\<lparr>version := Some 17, last_comp_version := 16\<rparr>)
   \<and> version example_header = Some 17
   \<and> last_comp_version example_header = 16
   \<and> boot_cpuid_phys example_header = boot_cpuid_phys (header example_tree)"
  using to_dtb_frame [OF example_to_dtb] example_to_dtb
  by (simp add: example_header_def example_tree_def example_blob_def Header_new_def be_bytes_4
      Header_set_version_spec_def)
section \<open>Positions, descent and \<^verbatim>\<open>get_node\<close>\<close>

lemma subnode_index_Some:
  "subnode_index nm cs = Some i \<Longrightarrow> i < length cs \<and> name (cs ! i) = nm \<and> (\<forall>j<i. name (cs ! j) \<noteq> nm)"
proof (induction cs arbitrary: i)
  case Nil then show ?case by simp
next
  case (Cons c cs)
  show ?case
  proof (cases "name c = nm")
    case True with Cons.prems show ?thesis by simp
  next
    case False
    with Cons.prems obtain j where j: "subnode_index nm cs = Some j" "i = Suc j" by auto
    from Cons.IH[OF j(1)] False j(2) show ?thesis
      by (auto simp: less_Suc_eq_0_disj)
  qed
qed

lemma subnode_index_None:
  "subnode_index nm cs = None \<longleftrightarrow> nm \<notin> name ` set cs"
  by (induction cs) auto

lemma node_at_append:
  "node_at (p @ q) n = (case node_at p n of None \<Rightarrow> None | Some m \<Rightarrow> node_at q m)"
  by (induction p arbitrary: n) auto

lemma modify_at_append:
  "modify_at (p @ q) f n = modify_at p (modify_at q f) n"
  by (induction p arbitrary: n) auto

lemma modify_at_cong_node:
  "node_at p n = Some m \<Longrightarrow> f m = g m \<Longrightarrow> modify_at p f n = modify_at p g n"
  by (induction p arbitrary: n) (auto split: if_splits)

lemma node_at_modify_at:
  "node_at p n = Some m \<Longrightarrow> node_at p (modify_at p f n) = Some (f m)"
  by (induction p arbitrary: n) (auto split: if_splits)

lemma modify_at_modify_at:
  "node_at p n = Some m \<Longrightarrow> modify_at p f (modify_at p g n) = modify_at p (f \<circ> g) n"
  by (induction p arbitrary: n) (auto split: if_splits)

lemma append_INode: "Node_append (INode c) n = Node (name n) (props n) (nodes n @ [c])"
  by (cases n) simp

lemma append_IProp: "Node_append (IProp p) n = Node (name n) (props n @ [p]) (nodes n)"
  by (cases n) simp

lemma get_node_loop_descend:
  "node_at pos root = Some n \<Longrightarrow>
   get_node_loop create names pos root =
     (case descend create names n of
        Inl e \<Rightarrow> Inl e
      | Inr (p, n') \<Rightarrow> Inr (pos @ p, modify_at pos (\<lambda>_. n') root))"
proof (induction names arbitrary: pos root n)
  case Nil
  have "modify_at pos (\<lambda>_. n) root = modify_at pos id root"
    by (rule modify_at_cong_node[OF Nil]) simp
  also have "\<dots> = root" 
    by (induction pos arbitrary: root) (auto simp: list_update_same_conv)
  finally show ?case by simp
next
  case (Cons nm names)
  show ?case
  proof (cases "subnode_index nm (nodes n)")
    case (Some i)
    then have i: "i < length (nodes n)" using subnode_index_Some by blast
    have at: "node_at (pos @ [i]) root = Some (nodes n ! i)"
      using Cons.prems i by (simp add: node_at_append)
    have m: "modify_at (pos @ [i]) (\<lambda>_. c') root
           = modify_at pos (\<lambda>_. Node (name n) (props n) ((nodes n)[i := c'])) root" for c'
      unfolding modify_at_append
      by (rule modify_at_cong_node[OF Cons.prems]) (use i in simp)
    show ?thesis
      using Cons.prems Some Cons.IH[OF at] m
      by (auto split: sum.splits)
  next
    case None
    show ?thesis
    proof (cases create)
      case False
      with None Cons.prems show ?thesis by simp
    next
      case True
      let ?new = "Node nm [] []"
      let ?root' = "modify_at pos (Node_append (INode ?new)) root"
      let ?pos' = "pos @ [length (nodes n)]"
      have n': "node_at pos ?root' = Some (Node_append (INode ?new) n)"
        by (rule node_at_modify_at[OF Cons.prems])
      have at: "node_at ?pos' ?root' = Some ?new"
        using n' by (simp add: node_at_append append_INode)
      have m: "modify_at ?pos' (\<lambda>_. c') ?root'
           = modify_at pos (\<lambda>_. Node (name n) (props n) (nodes n @ [c'])) root" for c'
      proof -
        have "modify_at ?pos' (\<lambda>_. c') ?root'
            = modify_at pos (modify_at [length (nodes n)] (\<lambda>_. c') \<circ> Node_append (INode ?new)) root"
          unfolding modify_at_append by (rule modify_at_modify_at[OF Cons.prems])
        also have "\<dots> = modify_at pos (\<lambda>_. Node (name n) (props n) (nodes n @ [c'])) root"
          by (rule modify_at_cong_node[OF Cons.prems]) (simp add: append_INode)
        finally show ?thesis .
      qed
      show ?thesis
        using Cons.prems None True Cons.IH[OF at] m
        by (auto split: sum.splits)
    qed
  qed
qed

lemma descend_name: "descend create names n = Inr (p, n') \<Longrightarrow> name n' = name n"
  by (cases names) (auto split: option.splits sum.splits if_splits)

lemma descend_False_missing:
  "\<not> exists_path names n \<Longrightarrow> descend False names n = Inl NotFound"
proof (induction names arbitrary: n)
  case Nil then show ?case by simp
next
  case (Cons nm names)
  show ?case
  proof (cases "subnode_index nm (nodes n)")
    case None then show ?thesis by simp
  next
    case (Some i)
    from subnode_index_Some[OF Some] have i: "i < length (nodes n)" "name (nodes n ! i) = nm" by auto
    have "\<not> exists_path names (nodes n ! i)"
      using Cons.prems i by (auto simp: list_ex_iff)
    from Cons.IH[OF this] Some show ?thesis by simp
  qed
qed

lemma subnode_index_update:
  "subnode_index nm cs = Some i \<Longrightarrow> name c = nm \<Longrightarrow> subnode_index nm (cs[i := c]) = Some i"
proof (induction cs arbitrary: i)
  case Nil then show ?case by simp
next
  case (Cons x xs)
  then show ?case by (cases i) (auto split: if_splits)
qed

lemma subnode_index_snoc:
  "subnode_index nm cs = None \<Longrightarrow> name c = nm \<Longrightarrow> subnode_index nm (cs @ [c]) = Some (length cs)"
  by (induction cs) (auto split: if_splits)

lemma descend_True:
  "\<exists>p n'. descend True names n = Inr (p, n')
      \<and> exists_path names n'
      \<and> descend False names n' = Inr (p, n')
      \<and> (\<exists>m. node_at p n' = Some m \<and> (names \<noteq> [] \<longrightarrow> name m = last names)
              \<and> (\<not> exists_path names n \<longrightarrow> m = Node (last names) [] []))"
proof (induction names arbitrary: n)
  case Nil
  show ?case by simp
next
  case (Cons nm names)
  show ?case
  proof (cases "subnode_index nm (nodes n)")
    case (Some i)
    from subnode_index_Some[OF Some] have i: "i < length (nodes n)" "name (nodes n ! i) = nm" by auto
    from Cons.IH[of "nodes n ! i"] obtain p c' m where
      d: "descend True names (nodes n ! i) = Inr (p, c')" and
      e: "exists_path names c'" and
      f: "descend False names c' = Inr (p, c')" and
      m: "node_at p c' = Some m" "names \<noteq> [] \<longrightarrow> name m = last names"
         "\<not> exists_path names (nodes n ! i) \<longrightarrow> m = Node (last names) [] []"
      by blast
    have nc: "name c' = nm" using descend_name[OF d] i by simp
    let ?n' = "Node (name n) (props n) ((nodes n)[i := c'])"
    have idx: "subnode_index nm (nodes ?n') = Some i"
      using subnode_index_update[OF Some nc] by simp
    have 1: "descend True (nm # names) n = Inr (i # p, ?n')" using Some d by simp
    have 2: "exists_path (nm # names) ?n'"
      using e nc i by (auto simp: list_ex_iff intro!: bexI[of _ c'] set_update_memI)
    have 3: "descend False (nm # names) ?n' = Inr (i # p, ?n')"
      using idx f i by simp
    have 4: "node_at (i # p) ?n' = Some m" using m i by simp
    have 5: "names = [] \<Longrightarrow> name m = nm"
      using m(1) nc d by (auto)
    have 6: "\<not> exists_path (nm # names) n \<Longrightarrow> m = Node (last (nm # names)) [] []"
    proof -
      assume a: "\<not> exists_path (nm # names) n"
      then have ne: "\<not> exists_path names (nodes n ! i)" using i by (auto simp: list_ex_iff)
      then have "names \<noteq> []" by auto
      with m(3) ne show ?thesis by simp
    qed
    show ?thesis using 1 2 3 4 5 6 m(2) by (intro exI[of _ "i # p"] exI[of _ ?n']) auto
  next
    case None
    let ?new = "Node nm [] []"
    from Cons.IH[of ?new] obtain p c' m where
      d: "descend True names ?new = Inr (p, c')" and
      e: "exists_path names c'" and
      f: "descend False names c' = Inr (p, c')" and
      m: "node_at p c' = Some m" "names \<noteq> [] \<longrightarrow> name m = last names"
         "\<not> exists_path names ?new \<longrightarrow> m = Node (last names) [] []"
      by blast
    have nc: "name c' = nm" using descend_name[OF d] by simp
    let ?n' = "Node (name n) (props n) (nodes n @ [c'])"
    have idx: "subnode_index nm (nodes ?n') = Some (length (nodes n))"
      using subnode_index_snoc[OF None nc] by simp
    have 1: "descend True (nm # names) n = Inr (length (nodes n) # p, ?n')" using None d by simp
    have 2: "exists_path (nm # names) ?n'"
      using e nc by (auto simp: list_ex_iff)
    have 3: "descend False (nm # names) ?n' = Inr (length (nodes n) # p, ?n')"
      using idx f by simp
    have 4: "node_at (length (nodes n) # p) ?n' = Some m" using m by simp
    have 5: "names = [] \<Longrightarrow> m = Node nm [] []"
      using m(1) d by auto
    have 6: "names \<noteq> [] \<Longrightarrow> m = Node (last names) [] []"
    proof -
      assume "names \<noteq> []"
      then obtain x xs where "names = x # xs" by (cases names) auto
      then have "\<not> exists_path names ?new" by simp
      with m(3) show ?thesis by simp
    qed
    show ?thesis using 1 2 3 4 5 6
      by (intro exI[of _ "length (nodes n) # p"] exI[of _ ?n']) (cases "names = []"; auto)
  qed
qed

lemma get_node_Some:
  "root_node t = Some r \<Longrightarrow>
   get_node path create t =
     (case descend create (path_names path) r of
        Inl e \<Rightarrow> Inl e
      | Inr (p, r') \<Rightarrow> Inr (Some p, t\<lparr>root_node := Some r'\<rparr>))"
  by (simp add: get_node_def get_node_loop_descend[of "[]" r r] split: sum.splits)

section \<open>\<^verbatim>\<open>get_node\<close> on a missing path\<close>

text \<open>
  Claim C5.  In a tree with a root node, for a path whose names lead to no node,
  \<^verbatim>\<open>get_node(path, create=False)\<close> raises the \<^verbatim>\<open>ValueError\<close> of line 92 (\<open>NotFound\<close>),
  and \<^verbatim>\<open>get_node(path, create=True)\<close> returns: the node returned is a new node without
  properties and children, named by the last name of the path; in the tree after the
  call the names of the path lead to a node, and \<^verbatim>\<open>get_node(path, create=False)\<close> on
  that tree returns the same node and leaves the tree as it is.
\<close>

theorem get_node_missing_path:
  assumes "root_node t = Some r" and "\<not> exists_path (path_names path) r"
  shows "get_node path False t = Inl NotFound
       \<and> (\<exists>pos r'. get_node path True t = Inr (Some pos, t\<lparr>root_node := Some r'\<rparr>)
            \<and> node_at pos r' = Some (Node (last (path_names path)) [] [])
            \<and> exists_path (path_names path) r'
            \<and> get_node path False (t\<lparr>root_node := Some r'\<rparr>)
                = Inr (Some pos, t\<lparr>root_node := Some r'\<rparr>))"
proof -
  from descend_True[of "path_names path" r] assms(2) obtain p r' where
    d: "descend True (path_names path) r = Inr (p, r')" and
    e: "exists_path (path_names path) r'" and
    f: "descend False (path_names path) r' = Inr (p, r')" and
    m: "node_at p r' = Some (Node (last (path_names path)) [] [])"
    by blast
  have 1: "get_node path False t = Inl NotFound"
    using descend_False_missing[OF assms(2)] by (simp add: get_node_Some[OF assms(1)])
  have 2: "get_node path True t = Inr (Some p, t\<lparr>root_node := Some r'\<rparr>)"
    using d by (simp add: get_node_Some[OF assms(1)])
  have 3: "get_node path False (t\<lparr>root_node := Some r'\<rparr>) = Inr (Some p, t\<lparr>root_node := Some r'\<rparr>)"
    using f by (simp add: get_node_Some[of "t\<lparr>root_node := Some r'\<rparr>" r'])
  show ?thesis using 1 2 3 e m by blast
qed

theorem get_node_missing_path_witness:
  "root_node example_tree = Some example_root
   \<and> path_names ''/cpu/core/l1'' = [''cpu'', ''core'', ''l1'']
   \<and> \<not> exists_path (path_names ''/cpu/core/l1'') example_root
   \<and> get_node ''/cpu/core/l1'' False example_tree = Inl NotFound
   \<and> get_node ''/cpu/core/l1'' True example_tree
       = Inr (Some [0, 0, 0],
              example_tree\<lparr>root_node := Some (Node ''/'' [PropWords ''bar'' [1, 2, 3]]
                 [Node ''cpu'' [PropStrings ''bar'' [''hello'']]
                    [Node ''core'' [] [Node ''l1'' [] []]]])\<rparr>)"
proof -
  have root: "root_node example_tree = Some example_root"
    by (simp add: example_tree_def example_root_def)
  have names: "path_names ''/cpu/core/l1'' = [''cpu'', ''core'', ''l1'']"
    by (simp add: path_names_def lstrip_def)
  have missing: "\<not> exists_path (path_names ''/cpu/core/l1'') example_root"
    unfolding names by (simp add: example_root_def)
  have run: "get_node ''/cpu/core/l1'' True example_tree
       = Inr (Some [0, 0, 0],
              example_tree\<lparr>root_node := Some (Node ''/'' [PropWords ''bar'' [1, 2, 3]]
                 [Node ''cpu'' [PropStrings ''bar'' [''hello'']]
                    [Node ''core'' [] [Node ''l1'' [] []]]])\<rparr>)"
    unfolding get_node_def names by (simp add: example_tree_def example_root_def)
  show ?thesis
    using get_node_missing_path [OF root missing] root names missing run by simp
qed

section \<open>\<^verbatim>\<open>walk\<close> visits the nodes in depth-first pre-order\<close>

lemma preorder_rl_unfold:
  "preorder_rl anc n = (anc, n) # concat (map (preorder_rl (anc @ [name n])) (rev (nodes n)))"
  by (cases n) simp

lemma walk_loop_preorder:
  "walk_loop path relative stack an =
     map (triple_of path relative)
       (preorder_rl (fst an) (snd an) @ concat (map (\<lambda>(a, m). preorder_rl a m) (rev stack)))"
proof (induction path relative stack an rule: walk_loop.induct)
  case (1 path relative stack anc n)
  let ?kids = "map (\<lambda>c. (anc @ [name n], c)) (nodes n)"
  let ?stack' = "stack @ ?kids"
  let ?pre = "\<lambda>(a, m). preorder_rl a m"
  have kids: "concat (map ?pre (rev ?kids)) = concat (map (preorder_rl (anc @ [name n])) (rev (nodes n)))"
    by (simp add: rev_map comp_def)
  show ?case
  proof (cases "?stack' = []")
    case True
    then have "stack = []" "nodes n = []" by auto
    then show ?thesis
      by (subst walk_loop.simps) (simp add: triple_of_def preorder_rl_unfold[of anc n])
  next
    case False
    have IH: "walk_loop path relative (butlast ?stack') (last ?stack') =
       map (triple_of path relative)
         (preorder_rl (fst (last ?stack')) (snd (last ?stack'))
          @ concat (map ?pre (rev (butlast ?stack'))))"
      using "1.IH"[OF refl False] by simp
    have "preorder_rl (fst (last ?stack')) (snd (last ?stack')) @ concat (map ?pre (rev (butlast ?stack')))
        = concat (map ?pre (rev (butlast ?stack' @ [last ?stack'])))"
      by (simp add: case_prod_beta)
    also have "\<dots> = concat (map ?pre (rev ?stack'))"
      using False by (metis append_butlast_last_id)
    also have "\<dots> = concat (map ?pre (rev ?kids)) @ concat (map ?pre (rev stack))"
      by simp
    finally have eq: "preorder_rl (fst (last ?stack')) (snd (last ?stack')) @ concat (map ?pre (rev (butlast ?stack')))
        = concat (map (preorder_rl (anc @ [name n])) (rev (nodes n))) @ concat (map ?pre (rev stack))"
      using kids by simp
    have "walk_loop path relative stack (anc, n)
        = triple_of path relative (anc, n) # walk_loop path relative (butlast ?stack') (last ?stack')"
      using False by (subst walk_loop.simps) (auto simp: triple_of_def Let_def)
    also have "\<dots> = map (triple_of path relative)
        ((anc, n) # concat (map (preorder_rl (anc @ [name n])) (rev (nodes n))) @ concat (map ?pre (rev stack)))"
      unfolding IH eq by simp
    finally show ?thesis by (simp add: preorder_rl_unfold[of anc n])
  qed
qed

lemma mset_preorder_rl: "mset (map snd (preorder_rl anc n)) = mset (subtrees n)"
proof (induction n arbitrary: anc)
  case (Node nm ps cs)
  have "(\<Sum>x\<leftarrow>rev cs. image_mset snd (mset (preorder_rl (anc @ [nm]) x)))
      = (\<Sum>x\<leftarrow>rev cs. mset (subtrees x))"
    using Node.IH by (intro arg_cong[of _ _ sum_list] map_cong) auto
  also have "\<dots> = sum_list (rev (map (\<lambda>x. mset (subtrees x)) cs))"
    by (simp add: rev_map)
  also have "\<dots> = (\<Sum>x\<leftarrow>cs. mset (subtrees x))"
    by (simp only: sum_list_rev)
  finally show ?case by (simp add: map_concat mset_concat comp_def)
qed


lemma replace_str_Nil: "replace_str old new [] = []"
  by (subst replace_str.simps) simp

lemma replace_str_Cons:
  "old \<noteq> [] \<Longrightarrow> replace_str old new (c # cs) =
     (if take (length old) (c # cs) = old then new @ replace_str old new (drop (length old) (c # cs))
      else c # replace_str old new cs)"
  by (subst replace_str.simps) simp

lemma walk_root:
  assumes "root_node t = Some r"
  shows "walk [] False t = Inr (map (triple_of [] False) (preorder_rl [] r))"
proof -
  have "walk [] False t = Inr (walk_loop [] False [] ([], r))"
    using assms by (simp add: walk_def get_node_def path_names_def lstrip_def)
  then show ?thesis by (simp add: walk_loop_preorder)
qed

text \<open>
  Claim C6.  For a tree with a root node, \<^verbatim>\<open>walk('', False)\<close> yields the triples of
  the nodes in the order of \<open>preorder_rl\<close>: a node before its descendants, then the
  subtree of each child in turn, the children taken from the last to the first.  The
  nodes listed are exactly the nodes of the tree, each as often as it occurs: one
  triple per node.
\<close>

theorem walk_preorder:
  assumes "root_node t = Some r"
  shows "walk [] False t = Inr (map (triple_of [] False) (preorder_rl [] r))
       \<and> mset (map snd (preorder_rl [] r)) = mset (subtrees r)
       \<and> length (preorder_rl [] r) = length (subtrees r)"
proof -
  have "length (map snd (preorder_rl [] r)) = length (subtrees r)"
    using mset_preorder_rl[of "[]" r] by (metis size_mset)
  then show ?thesis
    using mset_preorder_rl[of "[]" r] walk_root[OF assms] by simp
qed

theorem walk_preorder_witness:
  "root_node \<lparr>header = Header_new, entries = [], root_node = Some example_wide\<rparr>
     = Some example_wide
   \<and> walk [] False \<lparr>header = Header_new, entries = [], root_node = Some example_wide\<rparr>
     = Inr [(''/'', [Node ''a'' [] [Node ''a1'' [] [], Node ''a2'' [] []],
                    Node ''b'' [Property ''q''] [Node ''b1'' [] []]], [Property ''p'']),
            (''/b'', [Node ''b1'' [] []], [Property ''q'']),
            (''/b/b1'', [], []),
            (''/a'', [Node ''a1'' [] [], Node ''a2'' [] []], []),
            (''/a/a2'', [], []),
            (''/a/a1'', [], [])]"
  using walk_preorder [of "\<lparr>header = Header_new, entries = [], root_node = Some example_wide\<rparr>"
      example_wide]
  by (simp add: example_wide_def triple_of_def current_path_def Node_path_def
      replace_str_Nil replace_str_Cons)

section \<open>\<^verbatim>\<open>parse_dtb\<close>: the payload of a property and the offset of the blob\<close>

lemmas parse_defs = Header_size_spec_def MAGIC_NUMBER_def
  be_nat_def unpack_QQ_def unpack_II_def unpack_I_def read_entries.simps parse_nodes.simps
  parse_prop_def prop_start_def and_not_7 and_not_3 extract_string_spec_def new_property_spec_def
  is_strings_def DTB_BEGIN_NODE_def DTB_END_NODE_def DTB_PROP_def DTB_END_def
  open_node_def close_node_def add_prop_def builder_init_def child_count_def Let_def
  char_of_def bit_iff_odd

lemma Header_parse_blob15: "Header_parse_spec blob15 = Inr header15"
  by (simp add: blob15_def header15_def Header_parse_spec_def Header_size_spec_def
      MAGIC_NUMBER_def be_nat_def)

lemma Header_parse_blob16: "Header_parse_spec blob16 = Inr (header15\<lparr>version := Some 16\<rparr>)"
  by (simp add: blob16_def blob15_def header15_def Header_parse_spec_def Header_size_spec_def
      MAGIC_NUMBER_def be_nat_def)

lemma parse_blob15:
  "parse_dtb Header_parse_spec extract_string_spec new_property_spec blob15 0
   = Inr \<lparr>header = header15, entries = [],
          root_node = Some (Node ''/'' [PropWords ''reg'' [1, 2]] [])\<rparr>"
  unfolding parse_dtb_def Header_parse_blob15
  by (simp add: blob15_def header15_def parse_defs)

lemma parse_blob16:
  "parse_dtb Header_parse_spec extract_string_spec new_property_spec blob16 0
   = Inr \<lparr>header = header15\<lparr>version := Some 16\<rparr>, entries = [],
          root_node = Some (Node ''/'' [PropWords ''reg'' [0xaabbccdd, 1]] [])\<rparr>"
  unfolding parse_dtb_def Header_parse_blob16
  by (simp add: blob16_def blob15_def header15_def parse_defs)

lemma Header_parse_example: "Header_parse_spec example_blob = Inr example_header"
  by (simp add: example_blob_def example_header_def Header_parse_spec_def Header_size_spec_def
      MAGIC_NUMBER_def be_nat_def)

lemma parse_example:
  "parse_dtb Header_parse_spec extract_string_spec new_property_spec example_blob 0
   = Inr (example_tree\<lparr>header := example_header\<rparr>)"
  unfolding parse_dtb_def Header_parse_example
  by (simp add: example_blob_def example_header_def example_tree_def example_root_def parse_defs)

lemma parse_example_shifted:
  "parse_dtb Header_parse_spec extract_string_spec new_property_spec
     ([0, 0, 0, 0] @ example_blob) 4 = Inl BadMagic"
  by (simp add: parse_dtb_def example_blob_def Header_parse_spec_def be_nat_def MAGIC_NUMBER_def)

text \<open>
  Claim C3.  At a \<open>DTB_PROP\<close> tag at index \<open>t\<close> of the blob, with length \<open>prop_size\<close>,
  the loop of \<^verbatim>\<open>parse_dtb\<close> goes on with the property built from the \<open>prop_size\<close> bytes
  that start at index \<open>start\<close>.  When the header version is below 16 and the length is
  at least 8, \<open>start\<close> is the first multiple of 8 from \<open>t + 12\<close> on; otherwise \<open>start\<close> is
  \<open>t + 12\<close>, the index right after the length and the name offset.
\<close>

theorem parse_dtb_prop_alignment:
  assumes "offset + t + 4 \<le> length data"
    and "be_nat (take 4 (drop (offset + t) data)) = DTB_PROP"
    and "version hdr = Some ver"
    and "unpack_II data (offset + (t + 4)) = Inr (prop_size, nameoff)"
    and "extract_string data (off_dt_strings hdr + nameoff) = Inr nm"
  shows "\<exists>start.
           parse_nodes extract_string new_property hdr data offset t b
             = parse_nodes extract_string new_property hdr data offset
                 (and_not (start + prop_size + 3) 3)
                 (add_prop (new_property nm (take prop_size (drop (offset + start) data))) b)
         \<and> (if ver < 16 \<and> 8 \<le> prop_size
            then start mod 8 = 0 \<and> t + 12 \<le> start \<and> start < t + 20
            else start = t + 12)"
proof -
  let ?start = "prop_start ver (t + 4) prop_size"
  have step: "parse_prop extract_string new_property hdr data offset (t + 4) b
      = Inr (and_not (?start + prop_size + 3) 3,
             add_prop (new_property nm (take prop_size (drop (offset + ?start) data))) b)"
    using assms(3-5) by (simp add: parse_prop_def Let_def)
  have "parse_nodes extract_string new_property hdr data offset t b
      = parse_nodes extract_string new_property hdr data offset
          (and_not (?start + prop_size + 3) 3)
          (add_prop (new_property nm (take prop_size (drop (offset + ?start) data))) b)"
    using assms(1,2) step
    by (subst parse_nodes.simps)
       (simp add: Let_def DTB_PROP_def DTB_BEGIN_NODE_def DTB_END_NODE_def)
  moreover have "if ver < 16 \<and> 8 \<le> prop_size
      then ?start mod 8 = 0 \<and> t + 12 \<le> ?start \<and> ?start < t + 20
      else ?start = t + 12"
    by (simp add: prop_start_def and_not_7) presburger
  ultimately show ?thesis by blast
qed

theorem parse_dtb_prop_alignment_witness:
  "0 + 64 + 4 \<le> length blob15
   \<and> be_nat (take 4 (drop (0 + 64) blob15)) = DTB_PROP
   \<and> version header15 = Some 15
   \<and> unpack_II blob15 (0 + (64 + 4)) = Inr (8, 0)
   \<and> extract_string_spec blob15 (off_dt_strings header15 + 0) = Inr ''reg''
   \<and> take 8 (drop 80 blob15) = [0, 0, 0, 1, 0, 0, 0, 2]
   \<and> parse_dtb Header_parse_spec extract_string_spec new_property_spec blob15 0
       = Inr \<lparr>header = header15, entries = [],
              root_node = Some (Node ''/'' [PropWords ''reg'' [1, 2]] [])\<rparr>
   \<and> take 8 (drop 76 blob16) = [170, 187, 204, 221, 0, 0, 0, 1]
   \<and> parse_dtb Header_parse_spec extract_string_spec new_property_spec blob16 0
       = Inr \<lparr>header = header15\<lparr>version := Some 16\<rparr>, entries = [],
              root_node = Some (Node ''/'' [PropWords ''reg'' [0xaabbccdd, 1]] [])\<rparr>"
proof -
  have h1: "0 + 64 + 4 \<le> length blob15" by (simp add: blob15_def)
  have h2: "be_nat (take 4 (drop (0 + 64) blob15)) = DTB_PROP"
    by (simp add: blob15_def be_nat_def DTB_PROP_def)
  have h3: "version header15 = Some 15" by (simp add: header15_def)
  have h4: "unpack_II blob15 (0 + (64 + 4)) = Inr (8, 0)"
    by (simp add: blob15_def unpack_II_def be_nat_def)
  have h5: "extract_string_spec blob15 (off_dt_strings header15 + 0) = Inr ''reg''"
    by (simp add: blob15_def header15_def extract_string_spec_def char_of_def bit_iff_odd)
  show ?thesis
    using parse_dtb_prop_alignment [where offset = 0 and t = 64 and data = blob15
        and hdr = header15 and ver = 15 and prop_size = 8 and nameoff = 0 and nm = "''reg''"
        and extract_string = extract_string_spec and new_property = new_property_spec
        and b = "open_node ''/'' builder_init", OF h1 h2 h3 h4 h5]
      h1 h2 h3 h4 h5 parse_blob15 parse_blob16
    by (simp add: blob15_def blob16_def)
qed

text \<open>
  Claim C7.  The blob \<open>example_blob\<close> parses at offset 0.  Behind four zero bytes and
  parsed with offset 4 it does not give the same tree: line 392 passes only \<^verbatim>\<open>data\<close> to
  \<^verbatim>\<open>Header.parse\<close>, the header is decoded from the start of the data and the magic
  number is not found.
\<close>

theorem parse_dtb_header_ignores_offset:
  "parse_dtb Header_parse_spec extract_string_spec new_property_spec example_blob 0
     = Inr (example_tree\<lparr>header := example_header\<rparr>)
   \<and> parse_dtb Header_parse_spec extract_string_spec new_property_spec
       ([0, 0, 0, 0] @ example_blob) 4 = Inl BadMagic"
  using parse_example parse_example_shifted by simp

section \<open>\<^verbatim>\<open>parse_dts\<close>: unsupported statements and texts without a node\<close>

lemma startswith_Cons: "startswith (c # p) s \<longleftrightarrow> (\<exists>t. s = c # t \<and> startswith p t)"
  by (cases s) (auto simp: startswith_def)

lemma startswith_Nil: "startswith [] s"
  by (simp add: startswith_def)

lemma unsupported_statement:
  "unsupported_stmt line \<Longrightarrow> parse_statement load_file root_dir line = Inl Unsupported"
  by (auto simp: unsupported_stmt_def parse_statement_def Let_def startswith_Cons)

lemma unsupported_line:
  "unsupported_stmt line \<Longrightarrow> dts_line load_file root_dir line b = Inl Unsupported"
  using unsupported_statement[of line load_file root_dir]
  by (simp add: dts_line_def unsupported_stmt_def)

lemma foldM_append:
  "foldM f (xs @ ys) s = (case foldM f xs s of Inl e \<Rightarrow> Inl e | Inr s' \<Rightarrow> foldM f ys s')"
  by (induction xs arbitrary: s) (auto split: sum.splits)

lemma read_memreserve_no_opener:
  "\<forall>line \<in> set ls. \<not> endswith ''{'' line \<Longrightarrow>
   read_memreserve ls es =
     (case mapM memreserve_entry (filter (startswith ''/memreserve/'') ls) of
        Inl e \<Rightarrow> Inl e | Inr es' \<Rightarrow> Inr (es @ es'))"
  by (induction ls arbitrary: es) (auto split: sum.splits)

lemma foldM_dts_line_no_opener:
  "\<forall>line \<in> set ls. \<not> endswith ''{'' line \<Longrightarrow>
   foldM (dts_line load_file root_dir) ls builder_init =
     (case mapM (parse_statement load_file root_dir) (filter (\<lambda>l. \<not> endswith ''}'' l) ls) of
        Inl e \<Rightarrow> Inl e | Inr ps \<Rightarrow> Inr builder_init)"
proof (induction ls)
  case Nil then show ?case by simp
next
  case (Cons l ls)
  have c: "close_node builder_init = builder_init"
    by (simp add: close_node_def builder_init_def)
  have a: "add_prop p builder_init = builder_init" for p
    by (simp add: add_prop_def builder_init_def)
  from Cons show ?case
    by (auto simp: dts_line_def c a split: sum.splits)
qed

lemmas dts_defs = split_to_lines_spec_def strip_ws_def is_space_def startswith_def endswith_def
  replace_str_Nil replace_str_Cons Let_def

lemma lines_plugin_bad:
  "split_to_lines_spec dts_plugin_bad = [''/memreserve/ 0x1000'', ''/ {'', ''a = /plugin/'', ''}'']"
  by (simp add: dts_plugin_bad_def dts_defs)

lemma lines_plugin:
  "split_to_lines_spec dts_plugin = [''/memreserve/ 0x1000 0x10'', ''/ {'', ''a = /plugin/'', ''}'']"
  by (simp add: dts_plugin_def dts_defs)

lemma unsupported_plugin: "unsupported_stmt ''a = /plugin/''"
  by (simp add: unsupported_stmt_def startswith_def endswith_def lstrip_def)

lemmas int_defs = memreserve_entry_def strip_def lstrip_def rstrip_def split_ws_def is_space_def
  py_int_def strip_ws_def unsigned_val_def has_prefix_def digit_val_def

lemma hinted_header_no_hints: "hinted_header Sv (no_hints dts) = Inr Header_new"
  by (simp add: hinted_header_def no_hints_def)

lemma run_plugin_bad:
  "parse_dts Header_set_version_spec no_hints no_comments split_to_lines_spec no_file
     dts_plugin_bad [] = Inl SyntaxErr"
  by (simp add: parse_dts_def parse_dts_lines_def hinted_header_no_hints no_comments_def
      lines_plugin_bad startswith_def endswith_def int_defs)

lemma memreserve_example: "memreserve_entry ''/memreserve/ 0x1000 0x10'' = Inr \<lparr>address = 4096, size_r = 16\<rparr>"
  by (simp add: int_defs)

lemma run_plugin:
  "parse_dts Header_set_version_spec no_hints no_comments split_to_lines_spec no_file
     dts_plugin [] = Inl Unsupported"
  by (simp add: parse_dts_def parse_dts_lines_def hinted_header_no_hints no_comments_def
      lines_plugin startswith_def endswith_def memreserve_example
      dts_line_def split_ws_def is_space_def parse_statement_def lstrip_def rstrip_def)

text \<open>
  Claim C8, as stated, fails: in \<open>dts_plugin_bad\<close> a \<^verbatim>\<open>/plugin/\<close> statement follows a
  \<^verbatim>\<open>/memreserve/\<close> statement with two fields, and \<^verbatim>\<open>parse_dts\<close> raises the
  \<^verbatim>\<open>Exception()\<close> of line 307, not \<^verbatim>\<open>NotImplementedError\<close>.
\<close>

theorem parse_dts_unsupported_counterexample:
  "split_to_lines_spec (no_comments dts_plugin_bad)
     = [''/memreserve/ 0x1000'', ''/ {'', ''a = /plugin/'', ''}'']
   \<and> unsupported_stmt ''a = /plugin/''
   \<and> parse_dts Header_set_version_spec no_hints no_comments split_to_lines_spec no_file
         dts_plugin_bad []
       = Inl SyntaxErr
   \<and> parse_dts Header_set_version_spec no_hints no_comments split_to_lines_spec no_file
         dts_plugin_bad []
       \<noteq> Inl Unsupported"
  using lines_plugin_bad unsupported_plugin run_plugin_bad by (simp add: no_comments_def)

text \<open>
  Claim C8, amended.  When a logical line of the text is a property statement whose
  value starts with \<^verbatim>\<open>/plugin/\<close> or \<^verbatim>\<open>/bits/\<close>, \<^verbatim>\<open>parse_dts\<close> raises and returns no
  tree.  The exception is the one of the version hint if the header refuses it, else
  the one of the \<^verbatim>\<open>/memreserve/\<close> pass if that pass raises, else the one of the first
  statement before the line that raises, else \<^verbatim>\<open>NotImplementedError\<close>
  (\<open>Unsupported\<close>).
\<close>

theorem parse_dts_unsupported:
  assumes "split_to_lines (strip_comments dts) = pre @ line # post"
    and "unsupported_stmt line"
  shows "parse_dts Header_set_version get_version_info strip_comments split_to_lines
           load_file dts root_dir =
           (case hinted_header Header_set_version (get_version_info dts) of
              Inl e \<Rightarrow> Inl e
            | Inr h \<Rightarrow>
                (case read_memreserve (pre @ line # post) [] of
                   Inl e \<Rightarrow> Inl e
                 | Inr es \<Rightarrow>
                     (case foldM (dts_line load_file root_dir) pre builder_init of
                        Inl e \<Rightarrow> Inl e
                      | Inr b \<Rightarrow> Inl Unsupported)))
       \<and> (\<exists>e. parse_dts Header_set_version get_version_info strip_comments split_to_lines
                load_file dts root_dir
                = Inl e)"
  using assms
  by (auto simp: parse_dts_def parse_dts_lines_def foldM_append unsupported_line split: sum.splits)

theorem parse_dts_unsupported_witness:
  "split_to_lines_spec (no_comments dts_plugin)
     = [''/memreserve/ 0x1000 0x10'', ''/ {''] @ ''a = /plugin/'' # [''}'']
   \<and> unsupported_stmt ''a = /plugin/''
   \<and> parse_dts Header_set_version_spec no_hints no_comments split_to_lines_spec no_file
         dts_plugin [] = Inl Unsupported"
proof -
  have h1: "split_to_lines_spec (no_comments dts_plugin)
     = [''/memreserve/ 0x1000 0x10'', ''/ {''] @ ''a = /plugin/'' # [''}'']"
    using lines_plugin by (simp add: no_comments_def)
  show ?thesis
    using parse_dts_unsupported [where get_version_info = no_hints and load_file = no_file
        and strip_comments = no_comments and split_to_lines = split_to_lines_spec
        and Header_set_version = Header_set_version_spec
        and dts = dts_plugin and root_dir = "[]", OF h1 unsupported_plugin]
      h1 unsupported_plugin run_plugin
    by simp
qed

lemma lines_hinted:
  "split_to_lines_spec (strip_comments_spec dts_hinted)
     = [''/memreserve/ 0x1000 0x10'', ''a = <1>'']"
  by (simp add: dts_hinted_def strip_comments_spec_def dts_defs)

lemma lines_stray: "split_to_lines_spec (strip_comments_spec dts_stray) = [''a = /plugin/'']"
  by (simp add: dts_stray_def strip_comments_spec_def dts_defs)

lemmas hint_defs = get_version_info_spec_def hint_of_line_def strip_ws_def is_space_def
  startswith_def replace_str_Nil replace_str_Cons split_ws_def py_int_def unsigned_val_def
  has_prefix_def digit_val_def Let_def

lemma hints_hinted:
  "get_version_info_spec dts_hinted ''version'' = Some 17
   \<and> get_version_info_spec dts_hinted ''last_comp_version'' = None
   \<and> get_version_info_spec dts_hinted ''boot_cpuid_phys'' = Some 1"
  by (simp add: dts_hinted_def hint_defs)

lemma hints_stray: "get_version_info_spec dts_stray ''version'' = None"
  by (simp add: dts_stray_def hint_defs)

lemma statements_hinted:
  "mapM (parse_statement no_file [])
     (filter (\<lambda>l. \<not> endswith ''}'' l) [''/memreserve/ 0x1000 0x10'', ''a = <1>''])
   = Inr [Property ''/memreserve/ 0x1000 0x10'', PropWords ''a'' [1]]"
  by (simp add: endswith_def parse_statement_def lstrip_def rstrip_def replace_str_Nil
      replace_str_Cons parse_cell_def startswith_def int_defs)

lemma run_stray:
  "parse_dts Header_set_version_spec get_version_info_spec strip_comments_spec
     split_to_lines_spec no_file dts_stray [] = Inl Unsupported"
  using hints_stray
  by (simp add: parse_dts_def parse_dts_lines_def hinted_header_def lines_stray endswith_def
      startswith_def dts_line_def unsupported_statement[OF unsupported_plugin] Let_def)

text \<open>
  Claim C10, as stated, fails: a text that opens no node can still make \<^verbatim>\<open>parse_dts\<close>
  raise.  The text \<open>dts_stray\<close> is the single statement \<^verbatim>\<open>a = /plugin/;\<close>: no logical
  line ends with \<^verbatim>\<open>{\<close>, and the call raises \<^verbatim>\<open>NotImplementedError\<close> instead of
  returning a tree.
\<close>

theorem parse_dts_no_opener_counterexample:
  "split_to_lines_spec (strip_comments_spec dts_stray) = [''a = /plugin/'']
   \<and> list_all (\<lambda>line. \<not> endswith ''{'' line)
        (split_to_lines_spec (strip_comments_spec dts_stray))
   \<and> parse_dts Header_set_version_spec get_version_info_spec strip_comments_spec
         split_to_lines_spec no_file dts_stray [] = Inl Unsupported"
  using lines_stray run_stray by (simp add: endswith_def)

text \<open>
  Claim C10, amended.  Take a text in which no logical line ends with \<^verbatim>\<open>{\<close> and on
  which nothing raises: the setter of \<^verbatim>\<open>Header.version\<close> accepts the version hint, if
  there is one, and returns the header \<open>h1\<close> for it (without a version hint \<open>h1\<close> is the
  new header); every \<^verbatim>\<open>/memreserve/\<close> statement gives an entry; every line that is not
  a closing brace parses as a property statement.  Then \<^verbatim>\<open>parse_dts\<close> returns a tree
  whose root node is \<^verbatim>\<open>None\<close>, whose entries are those of all the \<^verbatim>\<open>/memreserve/\<close>
  statements, in order, and whose header is \<open>h1\<close> with the hinted
  \<open>last_comp_version\<close> and \<open>boot_cpuid_phys\<close> stored where the text gives them.
\<close>

theorem parse_dts_no_opener:
  assumes "\<forall>line \<in> set (split_to_lines (strip_comments dts)). \<not> endswith ''{'' line"
    and "case get_version_info dts ''version'' of
           None \<Rightarrow> h1 = Header_new
         | Some v \<Rightarrow> Header_set_version v Header_new = Inr h1"
    and "mapM memreserve_entry
           (filter (startswith ''/memreserve/'') (split_to_lines (strip_comments dts))) = Inr es"
    and "mapM (parse_statement load_file root_dir)
           (filter (\<lambda>l. \<not> endswith ''}'' l) (split_to_lines (strip_comments dts))) = Inr ps"
  shows "parse_dts Header_set_version get_version_info strip_comments split_to_lines
           load_file dts root_dir =
     Inr \<lparr>header = h1\<lparr>last_comp_version :=
                         (case get_version_info dts ''last_comp_version'' of
                            None \<Rightarrow> last_comp_version h1 | Some l \<Rightarrow> l),
                       boot_cpuid_phys :=
                         (case get_version_info dts ''boot_cpuid_phys'' of
                            None \<Rightarrow> boot_cpuid_phys h1 | Some b \<Rightarrow> b)\<rparr>,
          entries = es, root_node = None\<rparr>"
  using read_memreserve_no_opener[OF assms(1), of "[]"]
    foldM_dts_line_no_opener[OF assms(1), of load_file root_dir] assms(2,3,4)
  by (auto simp: parse_dts_def parse_dts_lines_def hinted_header_def builder_init_def
      split: sum.splits option.splits)

theorem parse_dts_no_opener_witness:
  "split_to_lines_spec (strip_comments_spec dts_hinted)
     = [''/memreserve/ 0x1000 0x10'', ''a = <1>'']
   \<and> list_all (\<lambda>line. \<not> endswith ''{'' line)
        (split_to_lines_spec (strip_comments_spec dts_hinted))
   \<and> get_version_info_spec dts_hinted ''version'' = Some 17
   \<and> get_version_info_spec dts_hinted ''last_comp_version'' = None
   \<and> get_version_info_spec dts_hinted ''boot_cpuid_phys'' = Some 1
   \<and> Header_set_version_spec 17 Header_new
       = Inr (Header_new\<lparr>version := Some 17, last_comp_version := 16\<rparr>)
   \<and> parse_dts Header_set_version_spec get_version_info_spec strip_comments_spec
         split_to_lines_spec no_file dts_hinted []
       = Inr \<lparr>header = Header_new\<lparr>version := Some 17, last_comp_version := 16,
                                  boot_cpuid_phys := 1\<rparr>,
              entries = [\<lparr>address = 4096, size_r = 16\<rparr>], root_node = None\<rparr>"
proof -
  have h1: "\<forall>line \<in> set (split_to_lines_spec (strip_comments_spec dts_hinted)).
              \<not> endswith ''{'' line"
    unfolding lines_hinted by (simp add: endswith_def)
  have h2: "case get_version_info_spec dts_hinted ''version'' of
              None \<Rightarrow> Header_new\<lparr>version := Some 17, last_comp_version := 16\<rparr> = Header_new
            | Some v \<Rightarrow> Header_set_version_spec v Header_new
                = Inr (Header_new\<lparr>version := Some 17, last_comp_version := 16\<rparr>)"
    using hints_hinted by (simp add: Header_set_version_spec_def)
  have h3: "mapM memreserve_entry
              (filter (startswith ''/memreserve/'')
                 (split_to_lines_spec (strip_comments_spec dts_hinted)))
            = Inr [\<lparr>address = 4096, size_r = 16\<rparr>]"
    unfolding lines_hinted by (simp add: startswith_def memreserve_example)
  have h4: "mapM (parse_statement no_file [])
              (filter (\<lambda>l. \<not> endswith ''}'' l)
                 (split_to_lines_spec (strip_comments_spec dts_hinted)))
            = Inr [Property ''/memreserve/ 0x1000 0x10'', PropWords ''a'' [1]]"
    unfolding lines_hinted by (rule statements_hinted)
  show ?thesis
    using parse_dts_no_opener [where get_version_info = get_version_info_spec
        and load_file = no_file and strip_comments = strip_comments_spec
        and split_to_lines = split_to_lines_spec
        and Header_set_version = Header_set_version_spec
        and dts = dts_hinted and root_dir = "[]", OF h1 h2 h3 h4]
      lines_hinted hints_hinted
    by (simp add: list_all_iff endswith_def Header_set_version_spec_def Header_new_def)
qed
section \<open>\<^verbatim>\<open>diff\<close> of a tree with itself\<close>

subsection \<open>The paths \<^verbatim>\<open>walk\<close> yields lead back to the nodes\<close>

lemma replace_pair_id: "no_slash_pair s \<Longrightarrow> replace_str ''//'' ''/'' s = s"
proof (induction s rule: no_slash_pair.induct)
  case 1
  then show ?case by (simp add: replace_str_Nil)
next
  case (2 a)
  then show ?case by (simp add: replace_str_Cons replace_str_Nil)
next
  case (3 a b cs)
  then show ?case by (auto simp: replace_str_Cons)
qed

lemma replace_triple_id: "no_slash_pair s \<Longrightarrow> replace_str ''///'' ''/'' s = s"
proof (induction s rule: no_slash_pair.induct)
  case 1
  then show ?case by (simp add: replace_str_Nil)
next
  case (2 a)
  then show ?case by (simp add: replace_str_Cons replace_str_Nil)
next
  case (3 a b cs)
  then show ?case by (auto simp: replace_str_Cons)
qed

lemma no_slash_pair_good: "CHR ''/'' \<notin> set s \<Longrightarrow> no_slash_pair s"
  by (induction s rule: no_slash_pair.induct) auto

lemma no_slash_pair_append:
  "CHR ''/'' \<notin> set s \<Longrightarrow> s \<noteq> [] \<Longrightarrow> no_slash_pair t \<Longrightarrow> no_slash_pair (s @ t)"
proof (induction s rule: no_slash_pair.induct)
  case 1 then show ?case by simp
next
  case (2 a) then show ?case by (cases t) auto
next
  case (3 a b cs) then show ?case by auto
qed

lemma no_slash_pair_slash:
  "t \<noteq> [] \<Longrightarrow> hd t \<noteq> CHR ''/'' \<Longrightarrow> no_slash_pair t \<Longrightarrow> no_slash_pair (CHR ''/'' # t)"
  by (cases t) auto

lemma join_good:
  "names \<noteq> [] \<Longrightarrow> \<forall>x \<in> set names. good_name x \<Longrightarrow>
   join ''/'' names \<noteq> [] \<and> hd (join ''/'' names) \<noteq> CHR ''/'' \<and> no_slash_pair (join ''/'' names)"
proof (induction names rule: induct_list012)
  case 1 then show ?case by simp
next
  case (2 x)
  then show ?case by (cases x) (auto simp: good_name_def no_slash_pair_good)
next
  case (3 x y ys)
  then have IH: "join ''/'' (y # ys) \<noteq> []" "hd (join ''/'' (y # ys)) \<noteq> CHR ''/''"
    "no_slash_pair (join ''/'' (y # ys))" by auto
  have x: "x \<noteq> []" "CHR ''/'' \<notin> set x" using 3 by (auto simp: good_name_def)
  have "no_slash_pair (x @ CHR ''/'' # join ''/'' (y # ys))"
    by (rule no_slash_pair_append[OF x(2,1)]) (rule no_slash_pair_slash[OF IH])
  then show ?case using x by (cases x) auto
qed

lemma split_on_good:
  "CHR ''/'' \<notin> set x \<Longrightarrow> split_on CHR ''/'' (x @ CHR ''/'' # rest) = x # split_on CHR ''/'' rest"
  by (induction x) (auto split: list.splits)

lemma split_on_good_last:
  "CHR ''/'' \<notin> set x \<Longrightarrow> split_on CHR ''/'' x = [x]"
  by (induction x) (auto split: list.splits)

lemma split_join:
  "names \<noteq> [] \<Longrightarrow> \<forall>x \<in> set names. good_name x \<Longrightarrow> split_on CHR ''/'' (join ''/'' names) = names"
proof (induction names rule: induct_list012)
  case 1 then show ?case by simp
next
  case (2 x)
  then show ?case by (simp add: good_name_def split_on_good_last)
next
  case (3 x y ys)
  then show ?case by (simp add: good_name_def split_on_good)
qed

lemma join_slash_Cons:
  "names \<noteq> [] \<Longrightarrow> join ''/'' (''/'' # names) = ''//'' @ join ''/'' names"
  by (cases names) auto

lemma join_snoc:
  "names \<noteq> [] \<Longrightarrow> join ''/'' names @ ''/'' @ x = join ''/'' (names @ [x])"
  by (induction names rule: induct_list012) auto

lemma replace_pair_head:
  "t \<noteq> [] \<Longrightarrow> hd t \<noteq> CHR ''/'' \<Longrightarrow> no_slash_pair t \<Longrightarrow>
   replace_str ''//'' ''/'' (''//'' @ t) = ''/'' @ t"
proof -
  assume a: "t \<noteq> []" "hd t \<noteq> CHR ''/''" "no_slash_pair t"
  have "replace_str ''//'' ''/'' (''//'' @ t) = ''/'' @ replace_str ''//'' ''/'' t"
    by (simp add: replace_str_Cons[where c = "CHR ''/''" and cs = "CHR ''/'' # t"])
  then show ?thesis using replace_pair_id[OF a(3)] by simp
qed

lemma replace_triple_head:
  "t \<noteq> [] \<Longrightarrow> hd t \<noteq> CHR ''/'' \<Longrightarrow> no_slash_pair t \<Longrightarrow>
   replace_str ''///'' ''/'' (''//'' @ t) = ''//'' @ t"
proof -
  assume a: "t \<noteq> []" "hd t \<noteq> CHR ''/''" "no_slash_pair t"
  then obtain c l where t: "t = c # l" "c \<noteq> CHR ''/''" by (cases t) auto
  have "replace_str ''///'' ''/'' (''//'' @ t)
      = CHR ''/'' # replace_str ''///'' ''/'' (CHR ''/'' # t)"
    using t(2)
    by (simp add: t(1) replace_str_Cons[where c = "CHR ''/''" and cs = "CHR ''/'' # c # l"])
  also have "replace_str ''///'' ''/'' (CHR ''/'' # t) = CHR ''/'' # replace_str ''///'' ''/'' t"
    using t(2)
    by (simp add: t(1) replace_str_Cons[where c = "CHR ''/''" and cs = "c # l"])
  finally show ?thesis using replace_triple_id[OF a(3)] by simp
qed

lemma current_path_good:
  assumes "good_anc anc m"
  shows "path_names (current_path [] False anc m) = name_path anc m"
proof (cases "anc = []")
  case True
  then have "name m = ''/''" using assms by (simp add: good_anc_def)
  then have "current_path [] False anc m = ''/''"
    using True by (simp add: current_path_def Node_path_def replace_str_Cons replace_str_Nil)
  then show ?thesis using True by (simp add: path_names_def lstrip_def name_path_def)
next
  case False
  then obtain rest where anc: "anc = ''/'' # rest" using assms
    by (cases anc) (auto simp: good_anc_def)
  let ?ns = "rest @ [name m]"
  have g: "\<forall>x \<in> set ?ns. good_name x" "?ns \<noteq> []" using assms anc by (auto simp: good_anc_def)
  have s: "Node_path anc @ ''/'' @ name m = ''//'' @ join ''/'' ?ns"
  proof (cases "rest = []")
    case True then show ?thesis using anc by (simp add: Node_path_def)
  next
    case False
    have "join ''/'' (''/'' # rest) = ''//'' @ join ''/'' rest" by (rule join_slash_Cons[OF False])
    then show ?thesis using anc join_snoc[OF False, of "name m"] by (simp add: Node_path_def)
  qed
  from join_good[OF g(2,1)] have j: "join ''/'' ?ns \<noteq> []" "hd (join ''/'' ?ns) \<noteq> CHR ''/''"
    "no_slash_pair (join ''/'' ?ns)" by auto
  have "current_path [] False anc m = ''/'' @ join ''/'' ?ns"
    unfolding current_path_def s Let_def
    by (simp only: replace_triple_head[OF j] replace_pair_head[OF j] simp_thms if_False)
  moreover have "lstrip {CHR ''/''} (''/'' @ join ''/'' ?ns) = join ''/'' ?ns"
    using j by (cases "join ''/'' ?ns") (auto simp: lstrip_def)
  ultimately show ?thesis using j split_join[OF g(2,1)] anc
    by (simp add: path_names_def name_path_def)
qed

subsection \<open>Descent by names\<close>

lemma descend_False_id: "descend False names n = Inr (p, n') \<Longrightarrow> n' = n"
proof (induction names arbitrary: n p n')
  case Nil then show ?case by simp
next
  case (Cons nm names)
  from Cons.prems obtain i p' c' where i: "subnode_index nm (nodes n) = Some i"
    and d: "descend False names (nodes n ! i) = Inr (p', c')"
    and n': "n' = Node (name n) (props n) ((nodes n)[i := c'])"
    by (auto split: option.splits sum.splits)
  from Cons.IH[OF d] have "c' = nodes n ! i" .
  then show ?case using n' by (cases n) simp
qed

lemma descend_True_of_False:
  "descend False names n = Inr (p, n) \<Longrightarrow> descend True names n = Inr (p, n)"
proof (induction names arbitrary: n p)
  case Nil then show ?case by simp
next
  case (Cons nm names)
  from Cons.prems obtain i p' where i: "subnode_index nm (nodes n) = Some i"
    and d: "descend False names (nodes n ! i) = Inr (p', nodes n ! i)" and p: "p = i # p'"
    by (auto split: option.splits sum.splits dest: descend_False_id)
  from Cons.IH[OF d] i p show ?case
    by (cases n) (simp add: list_update_same_conv)
qed

lemma modify_at_name:
  "node_at p n = Some m \<Longrightarrow> name (f m) = name m \<Longrightarrow> name (modify_at p f n) = name n"
  by (cases p) (auto split: if_splits)

lemma descend_modify:
  "descend False names n = Inr (p, n) \<Longrightarrow> node_at p n = Some m \<Longrightarrow> name (f m) = name m \<Longrightarrow>
   descend False names (modify_at p f n) = Inr (p, modify_at p f n)"
proof (induction names arbitrary: n p)
  case Nil then show ?case by simp
next
  case (Cons nm names)
  from Cons.prems(1) obtain i p' where i: "subnode_index nm (nodes n) = Some i"
    and d: "descend False names (nodes n ! i) = Inr (p', nodes n ! i)" and p: "p = i # p'"
    by (auto split: option.splits sum.splits dest: descend_False_id)
  from subnode_index_Some[OF i] have il: "i < length (nodes n)" "name (nodes n ! i) = nm" by auto
  have at: "node_at p' (nodes n ! i) = Some m" using Cons.prems(2) p il by simp
  let ?c = "modify_at p' f (nodes n ! i)"
  have IH: "descend False names ?c = Inr (p', ?c)" by (rule Cons.IH[OF d at Cons.prems(3)])
  have nc: "name ?c = nm"
    using modify_at_name[of p' "nodes n ! i" m f, OF at Cons.prems(3)] il by simp
  have idx: "subnode_index nm ((nodes n)[i := ?c]) = Some i"
    by (rule subnode_index_update[OF i nc])
  show ?case using p il idx IH by (simp add: list_update_same_conv)
qed

lemma descend_snoc:
  "descend False names n = Inr (p, n) \<Longrightarrow> node_at p n = Some m \<Longrightarrow>
   subnode_index x (nodes m) = Some i \<Longrightarrow> descend False (names @ [x]) n = Inr (p @ [i], n)"
proof (induction names arbitrary: n p)
  case Nil
  then show ?case by (cases n) (auto simp: list_update_same_conv)
next
  case (Cons nm names)
  from Cons.prems(1) obtain j p' where j: "subnode_index nm (nodes n) = Some j"
    and d: "descend False names (nodes n ! j) = Inr (p', nodes n ! j)" and p: "p = j # p'"
    by (auto split: option.splits sum.splits dest: descend_False_id)
  from subnode_index_Some[OF j] have jl: "j < length (nodes n)" by auto
  have at: "node_at p' (nodes n ! j) = Some m" using Cons.prems(2) p jl by simp
  from Cons.IH[OF d at Cons.prems(3)] j p show ?case
    by (cases n) (simp add: list_update_same_conv)
qed

lemma subnode_index_distinct:
  "distinct (map name cs) \<Longrightarrow> i < length cs \<Longrightarrow> subnode_index (name (cs ! i)) cs = Some i"
proof (induction cs arbitrary: i)
  case Nil then show ?case by simp
next
  case (Cons c cs)
  show ?case
  proof (cases i)
    case 0 then show ?thesis by simp
  next
    case (Suc j)
    then have "cs ! j \<in> set cs" using Cons.prems by simp
    then have "name (cs ! j) \<in> name ` set cs" by (rule imageI)
    moreover have "name c \<notin> name ` set cs" using Cons.prems(1) by simp
    ultimately have "name (cs ! j) \<noteq> name c" by metis
    then show ?thesis using Cons Suc by auto
  qed
qed

lemma find_distinct:
  "distinct (map f xs) \<Longrightarrow> x \<in> set xs \<Longrightarrow> find (\<lambda>y. f y = f x) xs = Some x"
  by (induction xs) auto

lemma find_fresh: "nm \<notin> f ` set xs \<Longrightarrow> find (\<lambda>x. f x = nm) xs = None"
  by (induction xs) auto

lemma add_item_existing:
  assumes "root_node t = Some S" and "descend False (path_names path) S = Inr (pos, S)"
    and "node_at pos S = Some s0" and "\<not> name_taken obj s0"
  shows "add_item apt obj path True t
       = Inr (t\<lparr>root_node := Some (modify_at pos (Node_append obj) S)\<rparr>)"
  using assms descend_True_of_False[OF assms(2)]
  by (simp add: add_item_def get_node_Some[OF assms(1)])

lemma try_get_node_existing:
  assumes "root_node t = Some r" and "descend False (path_names path) r = Inr (q, r)"
  shows "try_get_node path t = node_at q r"
  using assms by (simp add: try_get_node_def get_node_value_def get_node_Some[OF assms(1)])

subsection \<open>One step of each loop of \<^verbatim>\<open>diff\<close>\<close>

lemma get_subnode_member: "c \<in> set (nodes m) \<Longrightarrow> get_subnode (name c) m \<noteq> None"
  by (auto simp: get_subnode_def find_None_iff)

lemma get_property_member:
  "distinct (map prop_name (props m)) \<Longrightarrow> p \<in> set (props m) \<Longrightarrow>
   get_property (prop_name p) m = Some p"
  by (simp add: get_property_def find_distinct)

lemma diff_nodes1_fold:
  assumes "\<forall>c \<in> set cs. get_subnode (name c) m \<noteq> None"
    and "root_node fs = Some S"
    and "descend False (path_names path) S = Inr (pos, S)"
    and "node_at pos S = Some s0"
    and "distinct (map name (nodes s0 @ cs))"
  shows "foldM (diff_nodes1 apt (Some m) path) cs (fa, fs)
       = Inr (fa, fs\<lparr>root_node :=
                Some (modify_at pos (\<lambda>s. Node (name s) (props s) (nodes s @ map stub cs)) S)\<rparr>)"
  using assms
proof (induction cs arbitrary: fs S s0)
  case Nil
  have "modify_at pos (\<lambda>s. Node (name s) (props s) (nodes s)) S = modify_at pos id S"
    by (rule modify_at_cong_node[OF Nil(4)]) simp
  also have "\<dots> = S"
    by (induction pos arbitrary: S) (auto simp: list_update_same_conv)
  finally show ?case using Nil(2) by simp
next
  case (Cons c cs)
  let ?S1 = "modify_at pos (Node_append (INode (stub c))) S"
  let ?fs1 = "fs\<lparr>root_node := Some ?S1\<rparr>"
  have "name c \<notin> name ` set (nodes s0)" using Cons.prems(5) by auto
  then have free: "\<not> name_taken (INode (stub c)) s0"
    by (simp add: name_taken_def get_subnode_def find_fresh stub_def)
  have step: "diff_nodes1 apt (Some m) path c (fa, fs) = Inr (fa, ?fs1)"
    using Cons.prems(1) add_item_existing[OF Cons.prems(2,3,4) free]
    by (auto simp: diff_nodes1_def stub_def)
  have d1: "descend False (path_names path) ?S1 = Inr (pos, ?S1)"
    by (rule descend_modify[OF Cons.prems(3,4)]) (simp add: append_INode)
  have n1: "node_at pos ?S1 = Some (Node_append (INode (stub c)) s0)"
    by (rule node_at_modify_at[OF Cons.prems(4)])
  have r1: "root_node ?fs1 = Some ?S1" by simp
  have dist1: "distinct (map name (nodes (Node_append (INode (stub c)) s0) @ cs))"
    using Cons.prems(5) by (simp add: append_INode stub_def)
  have IH: "foldM (diff_nodes1 apt (Some m) path) cs (fa, ?fs1)
      = Inr (fa, ?fs1\<lparr>root_node :=
               Some (modify_at pos (\<lambda>s. Node (name s) (props s) (nodes s @ map stub cs)) ?S1)\<rparr>)"
    using Cons.prems(1) by (intro Cons.IH[OF _ r1 d1 n1 dist1]) simp
  have "modify_at pos (\<lambda>s. Node (name s) (props s) (nodes s @ map stub cs)) ?S1
      = modify_at pos ((\<lambda>s. Node (name s) (props s) (nodes s @ map stub cs))
                        \<circ> Node_append (INode (stub c))) S"
    by (rule modify_at_modify_at[OF Cons.prems(4)])
  also have "\<dots> = modify_at pos (\<lambda>s. Node (name s) (props s) (nodes s @ map stub (c # cs))) S"
    by (rule modify_at_cong_node[OF Cons.prems(4)]) (simp add: append_INode)
  finally show ?case using step IH by simp
qed

lemma diff_props1_fold:
  assumes "\<forall>p \<in> set ps. get_property (prop_name p) m = Some p"
    and "root_node fs = Some S"
    and "descend False (path_names path) S = Inr (pos, S)"
    and "node_at pos S = Some s0"
    and "distinct (map prop_name (props s0 @ ps))"
  shows "foldM (diff_props1 apt (Some m) path) ps (fa, fs)
       = Inr (fa, fs\<lparr>root_node :=
                Some (modify_at pos (\<lambda>s. Node (name s) (props s @ ps) (nodes s)) S)\<rparr>)"
  using assms
proof (induction ps arbitrary: fs S s0)
  case Nil
  have "modify_at pos (\<lambda>s. Node (name s) (props s) (nodes s)) S = modify_at pos id S"
    by (rule modify_at_cong_node[OF Nil(4)]) simp
  also have "\<dots> = S"
    by (induction pos arbitrary: S) (auto simp: list_update_same_conv)
  finally show ?case using Nil(2) by simp
next
  case (Cons p ps)
  let ?S1 = "modify_at pos (Node_append (IProp p)) S"
  let ?fs1 = "fs\<lparr>root_node := Some ?S1\<rparr>"
  have "prop_name p \<notin> prop_name ` set (props s0)" using Cons.prems(5) by auto
  then have free: "\<not> name_taken (IProp p) s0"
    by (simp add: name_taken_def get_property_def find_fresh)
  have step: "diff_props1 apt (Some m) path p (fa, fs) = Inr (fa, ?fs1)"
    using Cons.prems(1) add_item_existing[OF Cons.prems(2,3,4) free]
    by (auto simp: diff_props1_def)
  have d1: "descend False (path_names path) ?S1 = Inr (pos, ?S1)"
    by (rule descend_modify[OF Cons.prems(3,4)]) (simp add: append_IProp)
  have n1: "node_at pos ?S1 = Some (Node_append (IProp p) s0)"
    by (rule node_at_modify_at[OF Cons.prems(4)])
  have r1: "root_node ?fs1 = Some ?S1" by simp
  have dist1: "distinct (map prop_name (props (Node_append (IProp p) s0) @ ps))"
    using Cons.prems(5) by (simp add: append_IProp)
  have IH: "foldM (diff_props1 apt (Some m) path) ps (fa, ?fs1)
      = Inr (fa, ?fs1\<lparr>root_node :=
               Some (modify_at pos (\<lambda>s. Node (name s) (props s @ ps) (nodes s)) ?S1)\<rparr>)"
    using Cons.prems(1) by (intro Cons.IH[OF _ r1 d1 n1 dist1]) simp
  have "modify_at pos (\<lambda>s. Node (name s) (props s @ ps) (nodes s)) ?S1
      = modify_at pos ((\<lambda>s. Node (name s) (props s @ ps) (nodes s))
                        \<circ> Node_append (IProp p)) S"
    by (rule modify_at_modify_at[OF Cons.prems(4)])
  also have "\<dots> = modify_at pos (\<lambda>s. Node (name s) (props s @ p # ps) (nodes s)) S"
    by (rule modify_at_cong_node[OF Cons.prems(4)]) (simp add: append_IProp)
  finally show ?case using step IH by simp
qed

lemma diff_step1_same:
  assumes "try_get_node path other = Some m"
    and "distinct (map prop_name (props m))"
    and "root_node fs = Some S"
    and "descend False (path_names path) S = Inr (pos, S)"
    and "node_at pos S = Some (stub m)"
    and "distinct (map name (nodes m))"
  shows "diff_step1 apt other (path, nodes m, props m) (fa, fs)
       = Inr (fa, fs\<lparr>root_node :=
                Some (modify_at pos (\<lambda>_. Node (name m) (props m) (map stub (nodes m))) S)\<rparr>)"
proof -
  let ?S1 = "modify_at pos (\<lambda>s. Node (name s) (props s) (nodes s @ map stub (nodes m))) S"
  let ?fs1 = "fs\<lparr>root_node := Some ?S1\<rparr>"
  have a: "foldM (diff_nodes1 apt (Some m) path) (nodes m) (fa, fs) = Inr (fa, ?fs1)"
    by (rule diff_nodes1_fold[OF _ assms(3,4,5)])
       (simp_all add: get_subnode_member stub_def assms(6))
  have d1: "descend False (path_names path) ?S1 = Inr (pos, ?S1)"
    by (rule descend_modify[OF assms(4,5)]) simp
  have n1: "node_at pos ?S1 = Some (Node (name m) [] (map stub (nodes m)))"
    using node_at_modify_at[OF assms(5), of "\<lambda>s. Node (name s) (props s) (nodes s @ map stub (nodes m))"]
    by (simp add: stub_def)
  have r1: "root_node ?fs1 = Some ?S1" by simp
  have b: "foldM (diff_props1 apt (Some m) path) (props m) (fa, ?fs1)
      = Inr (fa, ?fs1\<lparr>root_node :=
               Some (modify_at pos (\<lambda>s. Node (name s) (props s @ props m) (nodes s)) ?S1)\<rparr>)"
    by (rule diff_props1_fold[OF _ r1 d1 n1])
       (simp_all add: get_property_member[OF assms(2)] assms(2))
  have "modify_at pos (\<lambda>s. Node (name s) (props s @ props m) (nodes s)) ?S1
      = modify_at pos ((\<lambda>s. Node (name s) (props s @ props m) (nodes s))
           \<circ> (\<lambda>s. Node (name s) (props s) (nodes s @ map stub (nodes m)))) S"
    by (rule modify_at_modify_at[OF assms(5)])
  also have "\<dots> = modify_at pos (\<lambda>_. Node (name m) (props m) (map stub (nodes m))) S"
    by (rule modify_at_cong_node[OF assms(5)]) (simp add: stub_def)
  finally show ?thesis using a b assms(1) by (simp add: diff_step1_def)
qed

lemma foldM_id: "\<forall>x \<in> set xs. f x s = Inr s \<Longrightarrow> foldM f xs s = Inr s"
  by (induction xs) auto

lemma diff_step2_same:
  assumes "try_get_node path fdt_same = Some m"
    and "distinct (map prop_name (props m))"
  shows "diff_step2 apt fdt_same (path, nodes m, props m) fb = Inr fb"
proof -
  have a: "foldM (diff_nodes2 apt (Some m) path) (nodes m) fb = Inr fb"
    by (rule foldM_id) (simp add: diff_nodes2_def get_subnode_member)
  have b: "foldM (diff_props2 apt (Some m) path) (props m) fb = Inr fb"
    by (rule foldM_id) (simp add: diff_props2_def get_property_member[OF assms(2)])
  show ?thesis using a b assms(1) by (simp add: diff_step2_def)
qed

subsection \<open>The first loop rebuilds the tree, the second adds nothing\<close>

lemma name_path_child: "name_path (anc @ [name n]) c = name_path anc n @ [name c]"
  by (cases anc) (simp_all add: name_path_def)

lemma good_anc_child:
  "good_anc anc n \<Longrightarrow> good_name (name c) \<Longrightarrow> good_anc (anc @ [name n]) c"
  by (cases anc) (auto simp: good_anc_def good_name_def)

lemma stub_list_step:
  assumes "k < length cs"
  shows "(map stub (take (Suc k) cs) @ drop (Suc k) cs)[k := cs ! k] = map stub (take k cs) @ drop k cs"
proof -
  have "map stub (take (Suc k) cs) @ drop (Suc k) cs
      = map stub (take k cs) @ stub (cs ! k) # drop (Suc k) cs"
    using assms by (simp add: take_Suc_conv_app_nth)
  moreover have "length (map stub (take k cs)) = k" using assms by simp
  ultimately have "(map stub (take (Suc k) cs) @ drop (Suc k) cs)[k := cs ! k]
      = map stub (take k cs) @ cs ! k # drop (Suc k) cs"
    by (metis list_update_length)
  then show ?thesis using assms by (simp add: Cons_nth_drop_Suc)
qed

lemma stub_list_names: "map name (map stub (take k cs) @ drop k cs) = map name cs"
proof -
  have a: "name \<circ> stub = name" by (rule ext) (simp add: stub_def)
  have "map name (take k cs) @ map name (drop k cs) = map name (take k cs @ drop k cs)"
    by (rule map_append[symmetric])
  then show ?thesis by (simp add: a)
qed

lemma stub_list_nth:
  "k < length cs \<Longrightarrow> (map stub (take (Suc k) cs) @ drop (Suc k) cs) ! k = stub (cs ! k)"
  by (simp add: nth_append)

lemma preorder_resolve:
  assumes "wf_node n" and "good_anc anc n"
    and "descend False (name_path anc n) r = Inr (q, r)" and "node_at q r = Some n"
  shows "\<forall>am \<in> set (preorder_rl anc n).
           good_anc (fst am) (snd am) \<and> wf_node (snd am)
         \<and> (\<exists>q'. descend False (name_path (fst am) (snd am)) r = Inr (q', r)
                \<and> node_at q' r = Some (snd am))"
  using assms
proof (induction n arbitrary: anc q)
  case (Node nm ps cs)
  let ?n = "Node nm ps cs"
  have "P am" if am: "am \<in> set (preorder_rl (anc @ [nm]) c)" and c: "c \<in> set cs"
    and P: "P = (\<lambda>am. good_anc (fst am) (snd am) \<and> wf_node (snd am)
         \<and> (\<exists>q'. descend False (name_path (fst am) (snd am)) r = Inr (q', r)
                \<and> node_at q' r = Some (snd am)))" for am c P
  proof -
    from c obtain k where k: "k < length cs" "c = cs ! k" by (auto simp: in_set_conv_nth)
    have wfc: "wf_node c" "good_name (name c)" using Node.prems(1) c by (auto simp: list_all_iff)
    have idx: "subnode_index (name c) (nodes ?n) = Some k"
      using subnode_index_distinct[of cs k] Node.prems(1) k by simp
    have d: "descend False (name_path (anc @ [nm]) c) r = Inr (q @ [k], r)"
      using descend_snoc[OF Node.prems(3,4) idx] name_path_child[of anc ?n c] by simp
    have at: "node_at (q @ [k]) r = Some c"
      using Node.prems(4) k by (simp add: node_at_append)
    have g: "good_anc (anc @ [nm]) c" using good_anc_child[OF Node.prems(2) wfc(2)] by simp
    from Node.IH[OF c wfc(1) g d at] am show ?thesis unfolding P by blast
  qed
  then show ?case using Node.prems by auto
qed

lemma diff_fill:
  assumes "root_node T = Some r" and "wf_node n" and "good_anc anc n"
    and "descend False (name_path anc n) r = Inr (q, r)" and "node_at q r = Some n"
    and "root_node fs = Some S"
    and "descend False (name_path anc n) S = Inr (pos, S)" and "node_at pos S = Some (stub n)"
  shows "foldM (diff_step1 apt T) (map (triple_of [] False) (preorder_rl anc n)) (fa, fs)
       = Inr (fa, fs\<lparr>root_node := Some (modify_at pos (\<lambda>_. n) S)\<rparr>)"
  using assms(2-)
proof (induction n arbitrary: anc q pos S fs)
  case (Node nm ps cs)
  let ?n = "Node nm ps cs"
  let ?names = "name_path anc ?n"
  let ?path = "current_path [] False anc ?n"
  let ?anc' = "anc @ [nm]"
  let ?X = "\<lambda>k. Node nm ps (map stub (take k cs) @ drop k cs)"
  let ?S = "\<lambda>k. modify_at pos (\<lambda>_. ?X k) S"
  have pn: "path_names ?path = ?names" by (rule current_path_good[OF Node.prems(2)])
  have dist: "distinct (map prop_name ps)" "distinct (map name cs)"
    using Node.prems(1) by auto
  have tg: "try_get_node ?path T = Some ?n"
    using try_get_node_existing[OF assms(1), of ?path q] Node.prems(3,4) pn by simp
  have first: "diff_step1 apt T (triple_of [] False (anc, ?n)) (fa, fs)
      = Inr (fa, fs\<lparr>root_node := Some (?S (length cs))\<rparr>)"
    using diff_step1_same[where other = T and path = ?path and m = ?n and fs = fs and S = S
        and pos = pos and fa = fa and apt = apt, OF tg _ Node.prems(5) _ Node.prems(7)] dist
      Node.prems(6) pn
    by (simp add: triple_of_def)
  have inner: "foldM (diff_step1 apt T)
         (map (triple_of [] False) (concat (map (preorder_rl ?anc') (rev (drop k cs)))))
         (fa, fs\<lparr>root_node := Some (?S (length cs))\<rparr>)
       = Inr (fa, fs\<lparr>root_node := Some (?S k)\<rparr>)" if "k \<le> length cs" for k
    using that
  proof (induction "length cs - k" arbitrary: k)
    case 0
    then show ?case by simp
  next
    case (Suc d)
    then have k: "k < length cs" and d: "d = length cs - Suc k" "Suc k \<le> length cs" by auto
    let ?c = "cs ! k"
    have c: "?c \<in> set cs" using k by simp
    have wfc: "wf_node ?c" "good_name (name ?c)"
      using Node.prems(1) c by (auto simp: list_all_iff)
    have IH: "foldM (diff_step1 apt T)
         (map (triple_of [] False) (concat (map (preorder_rl ?anc') (rev (drop (Suc k) cs)))))
         (fa, fs\<lparr>root_node := Some (?S (length cs))\<rparr>)
       = Inr (fa, fs\<lparr>root_node := Some (?S (Suc k))\<rparr>)"
      by (rule Suc.hyps(1)[OF d])
    have split: "rev (drop k cs) = rev (drop (Suc k) cs) @ [?c]"
      using k by (simp add: Cons_nth_drop_Suc[symmetric])
    \<comment> \<open>the tree under construction before the child is visited\<close>
    have dS: "descend False ?names (?S (Suc k)) = Inr (pos, ?S (Suc k))"
      by (rule descend_modify[OF Node.prems(6,7)]) (simp add: stub_def)
    have atS: "node_at pos (?S (Suc k)) = Some (?X (Suc k))"
      by (rule node_at_modify_at[OF Node.prems(7)])
    have "distinct (map name (nodes (?X (Suc k))))"
      using dist(2) stub_list_names[of "Suc k" cs] by simp
    moreover have "name (nodes (?X (Suc k)) ! k) = name ?c"
      using stub_list_nth[OF k] by (simp add: stub_def)
    moreover have "k < length (nodes (?X (Suc k)))" using k by simp
    ultimately have idxS: "subnode_index (name ?c) (nodes (?X (Suc k))) = Some k"
      using subnode_index_distinct[of "nodes (?X (Suc k))" k] by simp
    have dS': "descend False (name_path ?anc' ?c) (?S (Suc k)) = Inr (pos @ [k], ?S (Suc k))"
      using descend_snoc[OF dS atS idxS] name_path_child[of anc ?n ?c] by simp
    have atS': "node_at (pos @ [k]) (?S (Suc k)) = Some (stub ?c)"
      using atS k stub_list_nth[OF k] by (simp add: node_at_append)
    \<comment> \<open>the same child in the tree that is walked\<close>
    have idx: "subnode_index (name ?c) (nodes ?n) = Some k"
      using subnode_index_distinct[of cs k] dist(2) k by simp
    have dT: "descend False (name_path ?anc' ?c) r = Inr (q @ [k], r)"
      using descend_snoc[OF Node.prems(3,4) idx] name_path_child[of anc ?n ?c] by simp
    have atT: "node_at (q @ [k]) r = Some ?c"
      using Node.prems(4) k by (simp add: node_at_append)
    have g: "good_anc ?anc' ?c" using good_anc_child[OF Node.prems(2) wfc(2)] by simp
    have child: "foldM (diff_step1 apt T) (map (triple_of [] False) (preorder_rl ?anc' ?c))
          (fa, fs\<lparr>root_node := Some (?S (Suc k))\<rparr>)
        = Inr (fa, fs\<lparr>root_node := Some (modify_at (pos @ [k]) (\<lambda>_. ?c) (?S (Suc k)))\<rparr>)"
      using Node.IH[OF c wfc(1) g dT atT _ dS' atS', of "fs\<lparr>root_node := Some (?S (Suc k))\<rparr>"]
      by simp
    have "modify_at (pos @ [k]) (\<lambda>_. ?c) (?S (Suc k))
        = modify_at pos (modify_at [k] (\<lambda>_. ?c) \<circ> (\<lambda>_. ?X (Suc k))) S"
      unfolding modify_at_append by (rule modify_at_modify_at[OF Node.prems(7)])
    also have "\<dots> = ?S k"
      by (rule modify_at_cong_node[OF Node.prems(7)]) (use k stub_list_step[OF k] in simp)
    finally have eq: "modify_at (pos @ [k]) (\<lambda>_. ?c) (?S (Suc k)) = ?S k" .
    show ?case
      unfolding split using IH child eq by (simp add: foldM_append)
  qed
  have "?S 0 = modify_at pos (\<lambda>_. ?n) S" by simp
  then show ?case
    using first inner[of 0] by simp
qed

subsection \<open>The result\<close>

lemma same_entries_self: "same_entries es es = es"
proof -
  have "filter (\<lambda>a. list_ex (entry_eq a) es) es = es"
    by (rule filter_True) (auto simp: list_ex_iff entry_eq_def)
  then show ?thesis by (cases es) (simp_all add: same_entries_def)
qed

lemma only_entries_self: "only_entries es es = []"
  by (auto simp: only_entries_def list_ex_iff entry_eq_def filter_empty_conv)

lemma diff_second_loop:
  assumes "root_node T = Some r" and "name r = ''/''" and "wf_node r"
  shows "foldM (diff_step2 apt T) (map (triple_of [] False) (preorder_rl [] r)) fb = Inr fb"
proof (rule foldM_id, rule ballI)
  fix tr assume "tr \<in> set (map (triple_of [] False) (preorder_rl [] r))"
  then obtain am where am: "am \<in> set (preorder_rl [] r)" and tr: "tr = triple_of [] False am"
    by auto
  have g: "good_anc [] r" using assms(2) by (simp add: good_anc_def)
  have d: "descend False (name_path [] r) r = Inr ([], r)" by (simp add: name_path_def)
  from preorder_resolve[OF assms(3) g d] am obtain q' where
    ga: "good_anc (fst am) (snd am)" and wf: "wf_node (snd am)" and
    dq: "descend False (name_path (fst am) (snd am)) r = Inr (q', r)" and
    aq: "node_at q' r = Some (snd am)"
    by fastforce
  let ?path = "current_path [] False (fst am) (snd am)"
  have pn: "path_names ?path = name_path (fst am) (snd am)" by (rule current_path_good[OF ga])
  have tg: "try_get_node ?path T = Some (snd am)"
    using try_get_node_existing[OF assms(1), of ?path q'] dq aq pn by simp
  have dp: "distinct (map prop_name (props (snd am)))" using wf by (cases "snd am") simp
  show "diff_step2 apt T tr fb = Inr fb"
    using diff_step2_same[OF tg dp] tr by (simp add: triple_of_def)
qed

lemmas walk_eval = triple_of_def current_path_def Node_path_def replace_str_Nil replace_str_Cons

lemmas diff_eval = FDT_new_def Header_new_def walk_eval
  diff_step1_def diff_step2_def diff_nodes1_def diff_nodes2_def diff_props1_def
  diff_props2_def try_get_node_def get_node_value_def get_node_def path_names_def lstrip_def
  add_item_def name_taken_def get_subnode_def get_property_def

lemma diff_root_x: "diff refuse_taken tree_root_x tree_root_x = Inr (FDT_new Header_new, only_x, only_x)"
  unfolding diff_def Let_def same_entries_self only_entries_self
    walk_root[of tree_root_x "Node ''x'' [Property ''p''] []",
      simplified tree_root_x_def, simplified, folded tree_root_x_def]
  by (simp add: tree_root_x_def only_x_def diff_eval)

lemma diff_child_slash:
  "diff refuse_taken tree_child_slash tree_child_slash = Inr (same_slash, only_p, only_p)"
  unfolding diff_def Let_def same_entries_self only_entries_self
    walk_root[of tree_child_slash "Node ''/'' [] [Node ''/'' [Property ''p''] []]",
      simplified tree_child_slash_def, simplified, folded tree_child_slash_def]
  by (simp add: tree_child_slash_def same_slash_def only_p_def diff_eval)

lemma diff_child_noname:
  "diff refuse_taken tree_child_noname tree_child_noname = Inr (same_noname, only_p, only_p)"
  unfolding diff_def Let_def same_entries_self only_entries_self
    walk_root[of tree_child_noname "Node ''/'' [] [Node [] [Property ''p''] []]",
      simplified tree_child_noname_def, simplified, folded tree_child_noname_def]
  by (simp add: tree_child_noname_def same_noname_def only_p_def diff_eval)

text \<open>
  Claim C4, as stated, fails on trees in which the path that \<^verbatim>\<open>walk\<close> yields for a node
  does not lead \<^verbatim>\<open>get_node\<close> back to that node.  For a root named \<^verbatim>\<open>x\<close> the path is
  \<^verbatim>\<open>/x\<close>, which names a child of the root: the common tree is an empty root named
  \<^verbatim>\<open>/\<close>, and the property \<^verbatim>\<open>p\<close> is reported as specific to each side, under a new
  node \<^verbatim>\<open>x\<close>.  For a child named \<^verbatim>\<open>/\<close> and for a child with the empty name the path
  is \<^verbatim>\<open>/\<close>, which leads to the root: the common tree has the child without its
  property, and the property is reported as specific to each side, on the root.
\<close>

theorem diff_self_counterexample:
  "diff refuse_taken tree_root_x tree_root_x = Inr (FDT_new Header_new, only_x, only_x)
   \<and> FDT_new Header_new \<noteq> tree_root_x
   \<and> only_x \<noteq> FDT_new (header tree_root_x)
   \<and> diff refuse_taken tree_child_slash tree_child_slash = Inr (same_slash, only_p, only_p)
   \<and> same_slash \<noteq> tree_child_slash
   \<and> only_p \<noteq> FDT_new (header tree_child_slash)
   \<and> diff refuse_taken tree_child_noname tree_child_noname = Inr (same_noname, only_p, only_p)
   \<and> same_noname \<noteq> tree_child_noname
   \<and> only_p \<noteq> FDT_new (header tree_child_noname)"
  using diff_root_x diff_child_slash diff_child_noname
  by (simp add: tree_root_x_def tree_child_slash_def tree_child_noname_def only_x_def
      same_slash_def same_noname_def only_p_def FDT_new_def)

text \<open>
  Claim C4, amended.  For a tree whose root is named \<^verbatim>\<open>/\<close> and in which every other
  node has a name that is not empty and has no \<^verbatim>\<open>/\<close>, where no two properties of a
  node share a name (section 3) and no two children of a node share a name (as in every
  tree built with \<^verbatim>\<open>Node.append\<close>, which takes no second child of a name),
  \<^verbatim>\<open>diff(T, T)\<close> returns the tree itself (header, reservations and root) and two empty
  trees with its header: a root without properties and children and no reservations.
  In such a tree the path that \<^verbatim>\<open>walk\<close> yields for a node leads \<^verbatim>\<open>get_node\<close> to that
  node, and no item is added under a name its parent already has: the result is the
  same whatever \<^verbatim>\<open>Node.append\<close> does with a name that is taken.
\<close>

theorem diff_self:
  assumes "root_node T = Some r" and "name r = ''/''" and "wf_node r"
  shows "diff append_taken T T = Inr (T, FDT_new (header T), FDT_new (header T))"
proof -
  let ?w = "map (triple_of [] False) (preorder_rl [] r)"
  let ?fa = "FDT_new (header T)"
  let ?fs = "(FDT_new (header T))\<lparr>entries := entries T\<rparr>"
  have w: "walk [] False T = Inr ?w" by (rule walk_root[OF assms(1)])
  have g: "good_anc [] r" using assms(2) by (simp add: good_anc_def)
  have d: "descend False (name_path [] r) r = Inr ([], r)" by (simp add: name_path_def)
  have rs: "root_node ?fs = Some (stub r)" by (simp add: FDT_new_def stub_def assms(2))
  have ds: "descend False (name_path [] r) (stub r) = Inr ([], stub r)"
    by (simp add: name_path_def)
  have "foldM (diff_step1 append_taken T) ?w (?fa, ?fs)
      = Inr (?fa, ?fs\<lparr>root_node := Some (modify_at [] (\<lambda>_. r) (stub r))\<rparr>)"
    by (rule diff_fill[OF assms(1,3) g d _ rs ds]) simp_all
  moreover have "?fs\<lparr>root_node := Some (modify_at [] (\<lambda>_. r) (stub r))\<rparr> = T"
    using assms(1) by (simp add: FDT_new_def)
  ultimately have l1: "foldM (diff_step1 append_taken T) ?w (?fa, ?fs) = Inr (?fa, T)" by simp
  have l2: "foldM (diff_step2 append_taken T) ?w ?fa = Inr ?fa" by (rule diff_second_loop[OF assms])
  have h: "(case (version (header T), version (header T)) of
              (Some v1, Some v2) \<Rightarrow> if v1 > v2 then header T else header T
            | _ \<Rightarrow> header T) = header T"
    by (simp split: option.splits)
  have fa: "(FDT_new (header T))\<lparr>entries := []\<rparr> = FDT_new (header T)"
    by (simp add: FDT_new_def)
  show ?thesis
    unfolding diff_def Let_def same_entries_self only_entries_self
    by (simp add: w l1 l2 fa split: option.splits)
qed


theorem diff_self_witness:
  "root_node wide_tree = Some example_wide \<and> name example_wide = ''/''
   \<and> wf_node example_wide
   \<and> diff refuse_taken wide_tree wide_tree
       = Inr (wide_tree,
              \<lparr>header = Header_new\<lparr>version := Some 17\<rparr>, entries = [],
                root_node = Some (Node ''/'' [] [])\<rparr>,
              \<lparr>header = Header_new\<lparr>version := Some 17\<rparr>, entries = [],
                root_node = Some (Node ''/'' [] [])\<rparr>)"
proof -
  have h1: "root_node wide_tree = Some example_wide" by (simp add: wide_tree_def)
  have h2: "name example_wide = ''/''" by (simp add: example_wide_def)
  have h3: "wf_node example_wide" by (simp add: example_wide_def good_name_def)
  show ?thesis
    using diff_self [OF h1 h2 h3] h1 h2 h3 by (simp add: FDT_new_def wide_tree_def)
qed

end
